theory Spec2Isabelle
  imports Complex_Main "HOL-Library.Sublist"
begin

text \<open>
  A model of \<open>main.py\<close>, the job screener: the seen-set store (\<open>load_seen_jobs\<close>,
  \<open>save_seen_jobs\<close>), the Scorer (\<open>extract_score\<close>, \<open>score_job\<close>), the Notifier
  (\<open>send_to_slack\<close>), the three source adapters and the Runner (\<open>main\<close>).  Functions
  that may raise return a sum whose left side is the exception; functions that log or
  call the outside return what they logged or called.  The file \<open>seen_jobs.json\<close> is a
  value that \<open>main\<close> takes and returns; the answers of the network are fields of a
  record.  The scheduler that calls \<open>main\<close> once a day is not part of the model.
\<close>

section \<open>Python values and errors\<close>

text \<open>The classes of the exceptions that the modelled calls raise, all of them
  subclasses of \<open>Exception\<close>.\<close>

datatype py_error =
    OSError | UnicodeDecodeError | JSONDecodeError | RecursionError | TypeError
  | ValueError | KeyError | IndexError | AttributeError | RequestException | OpenAIError

section \<open>Text utilities\<close>

text \<open>
  A Python \<open>str\<close> is modelled as a \<^typ>\<open>string\<close> whose characters are the code points
  0..255.  On that range the character classes of the \<open>re\<close> module for \<open>str\<close>
  patterns are: \<open>\s\<close> is TAB, LF, VT, FF, CR, the separators 28..31, SPACE, NEL (133)
  and NBSP (160); \<open>\d\<close> is \<open>0\<close>..\<open>9\<close>.
\<close>

definition is_space :: "char \<Rightarrow> bool" where
  "is_space c = (of_char c \<in> {9, 10, 11, 12, 13, 28, 29, 30, 31, 32, 133, 160 :: nat})"

definition is_digit :: "char \<Rightarrow> bool" where
  "is_digit c = (48 \<le> (of_char c :: nat) \<and> (of_char c :: nat) \<le> 57)"

fun first_some :: "('a \<Rightarrow> 'b option) \<Rightarrow> 'a list \<Rightarrow> 'b option" where
  "first_some f [] = None"
| "first_some f (x # xs) = (case f x of Some y \<Rightarrow> Some y | None \<Rightarrow> first_some f xs)"

text \<open>
  \<open>re.match(r"Score:\s*(\d+)/10", s)\<close>: the pattern anchored at the start of \<open>s\<close>,
  returning group 1.  Both quantifiers are greedy: the engine tries the longest run of
  white space first and backs off one character at a time, and for each of these the
  longest run of digits first, down to one digit.
\<close>

definition match_here :: "string \<Rightarrow> string option" where
  "match_here s =
     (if take 6 s = ''Score:'' then
        (let r = drop 6 s in
         first_some (\<lambda>w.
           first_some (\<lambda>d. if take 3 (drop (w + d) r) = ''/10''
                            then Some (take d (drop w r)) else None)
             (rev [1 ..< Suc (length (takeWhile is_digit (drop w r)))]))
           (rev [0 ..< Suc (length (takeWhile is_space r))]))
      else None)"

text \<open>\<open>re.search\<close>: the leftmost start position at which the pattern matches.\<close>

fun re_search :: "string \<Rightarrow> string option" where
  "re_search [] = match_here []"
| "re_search (c # cs) =
     (case match_here (c # cs) of Some g \<Rightarrow> Some g | None \<Rightarrow> re_search cs)"

text \<open>
  \<open>int(ds)\<close> on a non-empty string of ASCII digits.  The interpreter that the
  \<open>Dockerfile\<close> of the repository names (\<open>python:3.10-slim\<close>) refuses conversions of
  more than 4300 digits with \<open>ValueError\<close>.
\<close>

definition digit_val :: "char \<Rightarrow> nat" where
  "digit_val c = of_char c - 48"

definition decimal :: "string \<Rightarrow> nat" where
  "decimal ds = foldl (\<lambda>n c. 10 * n + digit_val c) 0 ds"

definition py_int :: "string \<Rightarrow> py_error + int" where
  "py_int ds = (if length ds > 4300 then Inl ValueError else Inr (int (decimal ds)))"

text \<open>
  The reading of "the response contains the textual pattern \<open>Score: X/10\<close>" that the
  regular expression \<open>Score:\s*(\d+)/10\<close> denotes: somewhere in the text, \<open>Score:\<close>,
  any white space, one digit or more, \<open>/10\<close>.
\<close>

definition has_score_pattern :: "string \<Rightarrow> bool" where
  "has_score_pattern text =
     (\<exists>pre ws ds post. text = pre @ ''Score:'' @ ws @ ds @ ''/10'' @ post
        \<and> (\<forall>c \<in> set ws. is_space c) \<and> ds \<noteq> [] \<and> (\<forall>c \<in> set ds. is_digit c))"

text \<open>
  The same reading with the place of the match: the pattern matches at position \<open>p\<close> of
  the text with the digits \<open>ds\<close>.  The first match is the one at the least such
  position.
\<close>

definition matches_at :: "string \<Rightarrow> nat \<Rightarrow> string \<Rightarrow> bool" where
  "matches_at text p ds =
     (\<exists>ws post. drop p text = ''Score:'' @ ws @ ds @ ''/10'' @ post
        \<and> (\<forall>c \<in> set ws. is_space c) \<and> ds \<noteq> [] \<and> (\<forall>c \<in> set ds. is_digit c))"

definition extract_score :: "string \<Rightarrow> py_error + int" where
  "extract_score text =
     (case re_search text of None \<Rightarrow> Inr 0 | Some ds \<Rightarrow> py_int ds)"

section \<open>Decoded JSON and hashable values\<close>

text \<open>
  The values \<open>json.load\<close> and \<open>response.json()\<close> return.  A \<open>dict\<close> is the list of its
  items in insertion order, each key once.  Numbers are kept by value (Python compares \<open>1\<close>, \<open>1.0\<close> and
  \<open>True\<close> equal); the non-finite floats that the decoder accepts as an extension are
  not in the type.
\<close>

datatype json =
    JNull | JBool bool | JNum rat | JStr string | JArr "json list"
  | JObj "(string \<times> json) list"

text \<open>The members of a Python \<open>set\<close> built from such values, up to \<open>==\<close>.\<close>

datatype pyval = PNone | PNum rat | PStr string

text \<open>\<open>hash(v)\<close> succeeds on scalars and raises \<open>TypeError\<close> on lists and dicts.\<close>

fun hashable :: "json \<Rightarrow> py_error + pyval" where
  "hashable JNull = Inr PNone"
| "hashable (JBool b) = Inr (PNum (if b then 1 else 0))"
| "hashable (JNum r) = Inr (PNum r)"
| "hashable (JStr s) = Inr (PStr s)"
| "hashable (JArr xs) = Inl TypeError"
| "hashable (JObj kvs) = Inl TypeError"

fun json_of :: "pyval \<Rightarrow> json" where
  "json_of PNone = JNull"
| "json_of (PNum r) = JNum r"
| "json_of (PStr s) = JStr s"

text \<open>Iterating a value: a list gives its items, a string its characters, a dict its keys.\<close>

fun py_iter :: "json \<Rightarrow> py_error + json list" where
  "py_iter (JArr xs) = Inr xs"
| "py_iter (JStr s) = Inr (map (\<lambda>c. JStr [c]) s)"
| "py_iter (JObj kvs) = Inr (map (\<lambda>kv. JStr (fst kv)) kvs)"
| "py_iter JNull = Inl TypeError"
| "py_iter (JBool b) = Inl TypeError"
| "py_iter (JNum r) = Inl TypeError"

fun hash_all :: "json list \<Rightarrow> py_error + pyval list" where
  "hash_all [] = Inr []"
| "hash_all (x # xs) =
     (case hashable x of Inl e \<Rightarrow> Inl e
      | Inr k \<Rightarrow> (case hash_all xs of Inl e \<Rightarrow> Inl e | Inr ks \<Rightarrow> Inr (k # ks)))"

text \<open>
  \<open>set(v)\<close>.  A Python set is represented by a list of its members without repetition;
  the order of that list stands for the iteration order of the set, which Python leaves
  open, and every statement below is about the members only.
\<close>

definition py_set :: "json \<Rightarrow> py_error + pyval list" where
  "py_set v =
     (case py_iter v of Inl e \<Rightarrow> Inl e
      | Inr xs \<Rightarrow> (case hash_all xs of Inl e \<Rightarrow> Inl e | Inr ks \<Rightarrow> Inr (remdups ks)))"

section \<open>Seen-set store\<close>

text \<open>
  The state of \<open>seen_jobs.json\<close> as the program can observe it: no such path
  (\<open>os.path.exists\<close> is false); a path that \<open>open\<close> cannot read (\<open>OSError\<close>); a file on
  which \<open>json.load\<close> raises; or a file from which \<open>json.load\<close> returns a document.
  What \<open>json.load\<close> raises depends on the content: \<open>UnicodeDecodeError\<close> when the
  bytes are not text in the encoding, \<open>JSONDecodeError\<close> when the text is not JSON,
  \<open>ValueError\<close> when an integer has more than 4300 digits, \<open>RecursionError\<close> when
  arrays nest too deep.  The decoder itself is not modelled: the exception it raises is
  part of the state.
\<close>

datatype cache_file = Absent | Unreadable | Rejected py_error | Document json

text \<open>
  \<open>load_seen_jobs\<close> has the test for the path and no \<open>try\<close>: what \<open>open\<close>,
  \<open>json.load\<close> or \<open>set\<close> raises leaves the function.
\<close>

definition load_seen_jobs :: "cache_file \<Rightarrow> py_error + pyval list" where
  "load_seen_jobs f =
     (case f of
        Absent \<Rightarrow> Inr []
      | Unreadable \<Rightarrow> Inl OSError
      | Rejected e \<Rightarrow> Inl e
      | Document v \<Rightarrow> py_set v)"

text \<open>\<open>save_seen_jobs\<close> replaces the file by the array of the members; the write is
  taken to succeed (the source has no handler around it).\<close>

definition save_seen_jobs :: "pyval list \<Rightarrow> cache_file" where
  "save_seen_jobs seen = Document (JArr (map json_of seen))"

section \<open>Listings, logs and the outside world\<close>

text \<open>
  A listing is the dict \<open>{"title": .., "description": .., "url": ..}\<close> an adapter builds.
  Its three values are Python values; the first two adapters always store strings, the
  third stores whatever the search API returned.
\<close>

record listing =
  title :: json
  description :: json
  url :: json

text \<open>
  Texts built from a fixed template are represented by the values put into the
  template: the prompt by title and description, the Slack message by title, url, score
  and explanation, a log line by its kind and values.
\<close>

datatype prompt = Prompt string string

datatype message = Message string string int string

datatype log_record =
    Skipped_duplicate string
  | Scored string int
  | Skipped_low_score string int
  | OpenAI_error py_error
  | Slack_error py_error
  | RemoteOK_error py_error
  | YC_error py_error
  | Google_Jobs_error py_error

datatype event =
    Call_score_job listing
  | Call_send_to_slack message
  | Log log_record
  | Sleep nat

text \<open>One \<open>a[class*=JobPreview_jobPreview]\<close> element of the parsed page: the text of its
  first \<open>h2\<close> and first \<open>p\<close> if it has one, and its \<open>href\<close> attribute if it has one.\<close>

record anchor =
  h2_text :: "string option"
  p_text :: "string option"
  href :: "string option"

text \<open>
  What the program receives from outside during one pass.  The HTTP fields hold the
  outcome of the request together with the decoding of its body (an exception, or the
  decoded value).  \<open>openai\<close> and \<open>slack\<close> are asked once per listing at most; their first
  argument is the position of the listing in the gathered list, so that the answers may
  differ from one request to the next.  \<open>openai\<close> gives the \<open>content\<close> of the first
  choice, which may be \<open>None\<close>; \<open>slack\<close> gives the exception of the POST, if any.
  \<open>py_repr\<close> is Python's text for a value that is neither a string, \<open>None\<close> nor a
  boolean, and \<open>clean_html\<close> is \<open>BeautifulSoup(v, "html.parser").get_text()\<close>.
\<close>

record env =
  remoteok_http :: "py_error + json"
  yc_http :: "py_error + anchor list"
  serpapi_http :: "py_error + json"
  clean_html :: "json \<Rightarrow> py_error + string"
  py_repr :: "json \<Rightarrow> string"
  openai :: "nat \<Rightarrow> prompt \<Rightarrow> py_error + string option"
  slack :: "nat \<Rightarrow> message \<Rightarrow> py_error option"

text \<open>The text an f-string puts in place of a value.\<close>

definition py_str :: "env \<Rightarrow> json \<Rightarrow> string" where
  "py_str E v =
     (case v of
        JStr s \<Rightarrow> s
      | JNull \<Rightarrow> ''None''
      | JBool b \<Rightarrow> (if b then ''True'' else ''False'')
      | _ \<Rightarrow> py_repr E v)"

text \<open>\<open>str.lower\<close> and \<open>str.strip\<close> on code points below 256.\<close>

definition lower_char :: "char \<Rightarrow> char" where
  "lower_char c =
     (let n = (of_char c :: nat)
      in if (65 \<le> n \<and> n \<le> 90) \<or> (192 \<le> n \<and> n \<le> 222 \<and> n \<noteq> 215)
         then char_of (n + 32) else c)"

definition py_lower :: "string \<Rightarrow> string" where
  "py_lower s = map lower_char s"

definition py_strip :: "string \<Rightarrow> string" where
  "py_strip s = rev (dropWhile is_space (rev (dropWhile is_space s)))"

text \<open>\<open>d.get(k, default)\<close>, \<open>v[k]\<close> for a string key, \<open>v[0]\<close> and \<open>v[1:]\<close>.\<close>

definition py_get :: "(string \<times> json) list \<Rightarrow> string \<Rightarrow> json \<Rightarrow> json" where
  "py_get kvs k dflt = (case map_of kvs k of None \<Rightarrow> dflt | Some v \<Rightarrow> v)"

definition py_subscript :: "json \<Rightarrow> string \<Rightarrow> py_error + json" where
  "py_subscript v k =
     (case v of
        JObj kvs \<Rightarrow> (case map_of kvs k of None \<Rightarrow> Inl KeyError | Some x \<Rightarrow> Inr x)
      | _ \<Rightarrow> Inl TypeError)"

definition py_index0 :: "json \<Rightarrow> py_error + json" where
  "py_index0 v =
     (case v of
        JArr xs \<Rightarrow> (case xs of [] \<Rightarrow> Inl IndexError | x # _ \<Rightarrow> Inr x)
      | JStr s \<Rightarrow> (case s of [] \<Rightarrow> Inl IndexError | c # _ \<Rightarrow> Inr (JStr [c]))
      | JObj kvs \<Rightarrow> Inl KeyError
      | _ \<Rightarrow> Inl TypeError)"

definition py_slice1 :: "json \<Rightarrow> py_error + json" where
  "py_slice1 v =
     (case v of
        JArr xs \<Rightarrow> Inr (JArr (drop 1 xs))
      | JStr s \<Rightarrow> Inr (JStr (drop 1 s))
      | _ \<Rightarrow> Inl TypeError)"

text \<open>A list comprehension whose element expression may raise: the first exception
  ends it and nothing is returned.\<close>

fun collect :: "('a \<Rightarrow> py_error + 'b list) \<Rightarrow> 'a list \<Rightarrow> py_error + 'b list" where
  "collect f [] = Inr []"
| "collect f (x # xs) =
     (case f x of Inl e \<Rightarrow> Inl e
      | Inr ys \<Rightarrow> (case collect f xs of Inl e \<Rightarrow> Inl e | Inr zs \<Rightarrow> Inr (ys @ zs)))"

section \<open>Scorer\<close>

definition fallback :: string where
  "fallback = ''Score: 0/10'' @ [CHR 0x0A] @ ''Reason: Error in scoring.''"

text \<open>The prompt (the f-string of \<open>score_job\<close>).\<close>

definition prompt_of :: "env \<Rightarrow> listing \<Rightarrow> prompt" where
  "prompt_of E job = Prompt (py_str E (title job)) (py_str E (description job))"

text \<open>
  \<open>score_job\<close> returns the score, the explanation and the lines it logged.  Everything
  after the prompt is inside \<open>try\<close>: a failed request, a \<open>None\<close> content (on which
  \<open>re.search\<close> raises \<open>TypeError\<close>) and a failed \<open>int\<close> conversion all end in the
  \<open>except\<close> branch.
\<close>

definition score_job :: "env \<Rightarrow> nat \<Rightarrow> listing \<Rightarrow> int \<times> string \<times> log_record list" where
  "score_job E i job =
     (case openai E i (prompt_of E job) of
        Inl e \<Rightarrow> (0, fallback, [OpenAI_error e])
      | Inr None \<Rightarrow> (0, fallback, [OpenAI_error TypeError])
      | Inr (Some content) \<Rightarrow>
          (case extract_score content of
             Inl e \<Rightarrow> (0, fallback, [OpenAI_error e])
           | Inr score \<Rightarrow> (score, content, [])))"

section \<open>Notifier\<close>

definition send_to_slack :: "env \<Rightarrow> nat \<Rightarrow> message \<Rightarrow> log_record list" where
  "send_to_slack E i msg = (case slack E i msg of None \<Rightarrow> [] | Some e \<Rightarrow> [Slack_error e])"

section \<open>Source adapters\<close>

text \<open>Each adapter is the body of its \<open>try\<close> block, followed by the handler.  An adapter
  returns the lines it logged and its listings.\<close>

definition remoteok_item :: "env \<Rightarrow> json \<Rightarrow> py_error + listing list" where
  "remoteok_item E job =
     (case job of
        JObj kvs \<Rightarrow>
          (case py_get kvs ''position'' (JStr []) of
             JStr pos \<Rightarrow>
               if sublist ''data'' (py_lower pos) then
                 (case clean_html E (py_get kvs ''description'' (JStr [])) of
                    Inl e \<Rightarrow> Inl e
                  | Inr text \<Rightarrow>
                      Inr [\<lparr>title = py_get kvs ''position'' JNull,
                            description = JStr (take 1000 text),
                            url = JStr (''https://remoteok.com'' @ py_str E (py_get kvs ''url'' JNull))\<rparr>])
               else Inr []
           | _ \<Rightarrow> Inl AttributeError)
      | _ \<Rightarrow> Inl AttributeError)"

definition remoteok_try :: "env \<Rightarrow> py_error + listing list" where
  "remoteok_try E =
     (case remoteok_http E of
        Inl e \<Rightarrow> Inl e
      | Inr v \<Rightarrow>
          (case py_slice1 v of
             Inl e \<Rightarrow> Inl e
           | Inr jobs \<Rightarrow>
               (case py_iter jobs of
                  Inl e \<Rightarrow> Inl e
                | Inr items \<Rightarrow> collect (remoteok_item E) items)))"

definition fetch_remoteok_jobs :: "env \<Rightarrow> log_record list \<times> listing list" where
  "fetch_remoteok_jobs E =
     (case remoteok_try E of Inr jobs \<Rightarrow> ([], jobs) | Inl e \<Rightarrow> ([RemoteOK_error e], []))"

definition yc_item :: "anchor \<Rightarrow> py_error + listing list" where
  "yc_item jc =
     (case h2_text jc of
        None \<Rightarrow> Inl AttributeError
      | Some t \<Rightarrow>
          if sublist ''data'' (py_lower t) \<and> \<not> sublist ''intern'' (py_lower t) then
            (case href jc of
               None \<Rightarrow> Inl KeyError
             | Some h \<Rightarrow>
                 Inr [\<lparr>title = JStr (py_strip t),
                       description = JStr (case p_text jc of Some d \<Rightarrow> py_strip d | None \<Rightarrow> []),
                       url = JStr (''https://www.ycombinator.com'' @ h)\<rparr>])
          else Inr [])"

definition yc_try :: "env \<Rightarrow> py_error + listing list" where
  "yc_try E = (case yc_http E of Inl e \<Rightarrow> Inl e | Inr anchors \<Rightarrow> collect yc_item anchors)"

definition fetch_ycombinator_jobs :: "env \<Rightarrow> log_record list \<times> listing list" where
  "fetch_ycombinator_jobs E =
     (case yc_try E of Inr jobs \<Rightarrow> ([], jobs) | Inl e \<Rightarrow> ([YC_error e], []))"

definition google_item :: "json \<Rightarrow> py_error + listing list" where
  "google_item job =
     (case py_subscript job ''title'' of
        Inl e \<Rightarrow> Inl e
      | Inr t \<Rightarrow>
          (case py_subscript job ''description'' of
             Inl e \<Rightarrow> Inl e
           | Inr d \<Rightarrow>
               (case job of
                  JObj kvs \<Rightarrow>
                    (case py_index0 (py_get kvs ''related_links'' (JArr [JObj []])) of
                       Inl e \<Rightarrow> Inl e
                     | Inr l \<Rightarrow>
                         (case l of
                            JObj lkvs \<Rightarrow>
                              Inr [\<lparr>title = t, description = d,
                                    url = py_get lkvs ''link'' (JStr [])\<rparr>]
                          | _ \<Rightarrow> Inl AttributeError))
                | _ \<Rightarrow> Inl AttributeError)))"

definition google_try :: "env \<Rightarrow> py_error + listing list" where
  "google_try E =
     (case serpapi_http E of
        Inl e \<Rightarrow> Inl e
      | Inr v \<Rightarrow>
          (case v of
             JObj kvs \<Rightarrow>
               (case py_iter (py_get kvs ''jobs_results'' (JArr [])) of
                  Inl e \<Rightarrow> Inl e
                | Inr items \<Rightarrow> collect google_item items)
           | _ \<Rightarrow> Inl AttributeError))"

definition fetch_google_jobs :: "env \<Rightarrow> log_record list \<times> listing list" where
  "fetch_google_jobs E =
     (case google_try E of Inr jobs \<Rightarrow> ([], jobs) | Inl e \<Rightarrow> ([Google_Jobs_error e], []))"

definition gather_jobs :: "env \<Rightarrow> log_record list \<times> listing list" where
  "gather_jobs E =
     (case fetch_remoteok_jobs E of (l1, j1) \<Rightarrow>
      case fetch_ycombinator_jobs E of (l2, j2) \<Rightarrow>
      case fetch_google_jobs E of (l3, j3) \<Rightarrow> (l1 @ l2 @ l3, j1 @ j2 @ j3))"

section \<open>Runner\<close>

text \<open>The message of a notification (the f-string of \<open>main\<close>).\<close>

definition slack_message :: "env \<Rightarrow> listing \<Rightarrow> int \<Rightarrow> string \<Rightarrow> message" where
  "slack_message E job score explanation =
     Message (py_str E (title job)) (py_str E (url job)) score explanation"

text \<open>
  The body of the \<open>for\<close> loop of \<open>main\<close> for the listing at position \<open>i\<close>.  It returns
  the set \<open>new_seen\<close> after the iteration, or the exception that left the loop, and the
  calls, log lines and pauses of the iteration in order.  The membership test hashes the
  url, which raises \<open>TypeError\<close> on a list or dict; \<open>seen_jobs\<close> is the set loaded at
  the start and is never updated.
\<close>

definition loop_body ::
  "env \<Rightarrow> pyval list \<Rightarrow> nat \<Rightarrow> listing \<Rightarrow> pyval list \<Rightarrow> (py_error + pyval list) \<times> event list" where
  "loop_body E seen_jobs i job new_seen =
     (case hashable (url job) of
        Inl e \<Rightarrow> (Inl e, [])
      | Inr k \<Rightarrow>
          if k \<in> set seen_jobs then
            (Inr new_seen, [Log (Skipped_duplicate (py_str E (title job)))])
          else
            (case score_job E i job of
               (score, explanation, errs) \<Rightarrow>
                 if score \<ge> 7 then
                   (let msg = slack_message E job score explanation
                    in (Inr (List.insert k new_seen),
                        [Call_score_job job] @ map Log errs
                        @ [Log (Scored (py_str E (title job)) score)]
                        @ [Call_send_to_slack msg] @ map Log (send_to_slack E i msg)
                        @ [Sleep 2]))
                 else
                   (Inr new_seen,
                    [Call_score_job job] @ map Log errs
                    @ [Log (Scored (py_str E (title job)) score)]
                    @ [Log (Skipped_low_score (py_str E (title job)) score)]
                    @ [Sleep 2])))"

text \<open>The loop over the gathered listings; every entry of the trace carries the position
  of the listing it belongs to.\<close>

fun main_loop ::
  "env \<Rightarrow> pyval list \<Rightarrow> nat \<Rightarrow> listing list \<Rightarrow> pyval list
     \<Rightarrow> (py_error + pyval list) \<times> (nat \<times> event) list" where
  "main_loop E seen_jobs i [] new_seen = (Inr new_seen, [])"
| "main_loop E seen_jobs i (job # jobs) new_seen =
     (case loop_body E seen_jobs i job new_seen of
        (Inl e, evs) \<Rightarrow> (Inl e, map (Pair i) evs)
      | (Inr new_seen', evs) \<Rightarrow>
          (case main_loop E seen_jobs (Suc i) jobs new_seen' of
             (r, tr) \<Rightarrow> (r, map (Pair i) evs @ tr)))"

text \<open>
  One pass.  \<open>raised\<close> is the exception that ended \<open>main\<close>, if any; \<open>cache\<close> is the
  state of the file afterwards.  An exception in \<open>load_seen_jobs\<close> or in the loop leaves
  \<open>main\<close> before \<open>save_seen_jobs\<close>, so the file stays as it was.
\<close>

record outcome =
  raised :: "py_error option"
  cache :: cache_file
  fetch_log :: "log_record list"
  trace :: "(nat \<times> event) list"

definition main :: "env \<Rightarrow> cache_file \<Rightarrow> outcome" where
  "main E f =
     (case load_seen_jobs f of
        Inl e \<Rightarrow> \<lparr>raised = Some e, cache = f, fetch_log = [], trace = []\<rparr>
      | Inr seen_jobs \<Rightarrow>
          (case gather_jobs E of
             (logged, jobs) \<Rightarrow>
               (case main_loop E seen_jobs 0 jobs seen_jobs of
                  (Inl e, tr) \<Rightarrow> \<lparr>raised = Some e, cache = f, fetch_log = logged, trace = tr\<rparr>
                | (Inr new_seen, tr) \<Rightarrow>
                    \<lparr>raised = None, cache = save_seen_jobs new_seen, fetch_log = logged,
                     trace = tr\<rparr>)))"

text \<open>The listings of a pass, the entries of a trace that belong to position \<open>i\<close>, and
  the calls of the Notifier among a list of events.\<close>

definition gathered :: "env \<Rightarrow> listing list" where
  "gathered E = snd (gather_jobs E)"

definition events_at :: "nat \<Rightarrow> (nat \<times> event) list \<Rightarrow> event list" where
  "events_at i tr = map snd (filter (\<lambda>ne. fst ne = i) tr)"

text \<open>Position \<open>m\<close> of the list is reached when no earlier url made the membership
  test raise.\<close>

definition reaches :: "listing list \<Rightarrow> nat \<Rightarrow> bool" where
  "reaches jobs m = (\<forall>p < m. \<exists>k. hashable (url (jobs ! p)) = Inr k)"

text \<open>The members the loop adds when it starts at position \<open>i\<close>: the urls, not in the
  loaded set, of the listings that score 7 or more.\<close>

definition added :: "env \<Rightarrow> pyval list \<Rightarrow> nat \<Rightarrow> listing list \<Rightarrow> pyval set" where
  "added E seen i jobs =
     {k. \<exists>m < length jobs. hashable (url (jobs ! m)) = Inr k \<and> k \<notin> set seen
            \<and> 7 \<le> fst (score_job E (i + m) (jobs ! m))}"

fun is_notify :: "event \<Rightarrow> bool" where
  "is_notify (Call_send_to_slack m) = True"
| "is_notify _ = False"

fun is_score :: "event \<Rightarrow> bool" where
  "is_score (Call_score_job j) = True"
| "is_score _ = False"

definition notifications :: "event list \<Rightarrow> event list" where
  "notifications evs = filter is_notify evs"

section \<open>Example environments\<close>

definition quiet :: env where
  "quiet = \<lparr>remoteok_http = Inl RequestException, yc_http = Inl RequestException,
            serpapi_http = Inl RequestException, clean_html = (\<lambda>v. Inl TypeError),
            py_repr = (\<lambda>v. []), openai = (\<lambda>i p. Inl OpenAIError), slack = (\<lambda>i m. None)\<rparr>"

text \<open>A search result with two jobs that carry no link: both listings get the url
  \<open>""\<close>.  The scoring service answers 8 for the first title and 3 for any other.\<close>

definition two_jobs :: json where
  "two_jobs = JObj [(''jobs_results'',
     JArr [JObj [(''title'', JStr ''Senior Data Scientist''), (''description'', JStr ''Remote'')],
           JObj [(''title'', JStr ''Data Intern''), (''description'', JStr ''On site'')]])]"

definition reply :: "prompt \<Rightarrow> py_error + string option" where
  "reply p = (case p of Prompt t d \<Rightarrow>
     if t = ''Senior Data Scientist'' then Inr (Some ''Score: 8/10'') else Inr (Some ''Score: 3/10''))"

definition shared_url :: env where
  "shared_url = quiet\<lparr>serpapi_http := Inr two_jobs, openai := (\<lambda>i. reply)\<rparr>"

text \<open>The same search result when the scoring service answers 9 for every listing.\<close>

definition both_high :: env where
  "both_high = quiet\<lparr>serpapi_http := Inr two_jobs, openai := (\<lambda>i p. Inr (Some ''Score: 9/10''))\<rparr>"

text \<open>A scoring service that answers without the pattern.\<close>

definition vague :: env where
  "vague = quiet\<lparr>openai := (\<lambda>i p. Inr (Some ''Looks like a good fit''))\<rparr>"

text \<open>A scoring service whose answer has the pattern with 4301 digits.\<close>

definition long_reply :: string where
  "long_reply = ''Score: '' @ replicate 4301 (CHR ''1'') @ ''/10''"

definition verbose :: env where
  "verbose = quiet\<lparr>openai := (\<lambda>i p. Inr (Some long_reply))\<rparr>"

text \<open>A listing to score.\<close>

definition sample_job :: listing where
  "sample_job = \<lparr>title = JStr ''Senior Data Scientist'', description = JStr ''Remote'',
                  url = JStr ''https://remoteok.com/remote-jobs/1''\<rparr>"

text \<open>Responses that arrive but do not have the expected shape: \<open>null\<close> from the job
  board; on the listings page a well-formed preview followed by one without \<open>h2\<close>;
  from the search API a job without description.\<close>

definition misshapen :: env where
  "misshapen = quiet\<lparr>
     remoteok_http := Inr JNull,
     yc_http := Inr [\<lparr>h2_text = Some ''Data Engineer'', p_text = Some ''Remote'',
                      href = Some ''/jobs/1''\<rparr>,
                     \<lparr>h2_text = None, p_text = None, href = Some ''/jobs/2''\<rparr>],
     serpapi_http := Inr (JObj [(''jobs_results'',
                       JArr [JObj [(''title'', JStr ''Data Scientist'')]])])\<rparr>"

text \<open>The job board returns its notice and one job that scores 8; in \<open>low_scenario\<close>
  the same job scores 3.\<close>

definition scenario :: env where
  "scenario = quiet\<lparr>
     remoteok_http := Inr (JArr [JObj [(''legal'', JStr ''notice'')],
        JObj [(''position'', JStr ''Senior Data Scientist''),
              (''description'', JStr ''<p>Remote</p>''),
              (''url'', JStr ''/remote-jobs/1'')]]),
     clean_html := (\<lambda>v. Inr ''Remote''),
     openai := (\<lambda>i p. Inr (Some ''Score: 8/10''))\<rparr>"

definition low_scenario :: env where
  "low_scenario = scenario\<lparr>openai := (\<lambda>i p. Inr (Some ''Score: 3/10''))\<rparr>"

section \<open>The score pattern\<close>

text \<open>
  The search finds a match exactly when the text contains the pattern, and the group it
  returns is a non-empty run of digits.
\<close>

lemma first_some_Some:
  "first_some f xs = Some y \<Longrightarrow> \<exists>x \<in> set xs. f x = Some y"
  by (induction xs) (auto split: option.splits)

lemma first_some_None:
  "first_some f xs = None \<longleftrightarrow> (\<forall>x \<in> set xs. f x = None)"
  by (induction xs) (auto split: option.splits)

lemma space_not_digit: "is_space c \<Longrightarrow> \<not> is_digit c"
  by (auto simp: is_space_def is_digit_def)

lemma slash_not_digit: "\<not> is_digit CHR ''/''"
  by (simp add: is_digit_def)

lemma take_le_takeWhile:
  assumes "n \<le> length (takeWhile P xs)"
  shows "\<forall>c \<in> set (take n xs). P c"
proof -
  have "take n (takeWhile P xs @ dropWhile P xs) = take n (takeWhile P xs)"
    using assms by (simp del: takeWhile_dropWhile_id)
  then have "take n xs = take n (takeWhile P xs)" by simp
  then have "set (take n xs) \<subseteq> set (takeWhile P xs)"
    by (metis set_take_subset)
  then show ?thesis by (auto dest: set_takeWhileD)
qed

lemma match_here_sound:
  assumes "match_here s = Some g"
  shows "\<exists>ws post. s = ''Score:'' @ ws @ g @ ''/10'' @ post
           \<and> (\<forall>c \<in> set ws. is_space c) \<and> g \<noteq> [] \<and> (\<forall>c \<in> set g. is_digit c)"
proof -
  define r where "r = drop 6 s"
  from assms have pre: "take 6 s = ''Score:''"
    by (auto simp: match_here_def split: if_splits)
  then have s: "s = ''Score:'' @ r"
    unfolding r_def by (metis append_take_drop_id)
  from assms have "(if take 6 s = ''Score:'' then
        first_some (\<lambda>w.
           first_some (\<lambda>d. if take 3 (drop (w + d) r) = ''/10''
                            then Some (take d (drop w r)) else None)
             (rev [1 ..< Suc (length (takeWhile is_digit (drop w r)))]))
           (rev [0 ..< Suc (length (takeWhile is_space r))])
      else None) = Some g"
    unfolding match_here_def r_def Let_def .
  then have outer: "first_some (\<lambda>w.
           first_some (\<lambda>d. if take 3 (drop (w + d) r) = ''/10''
                            then Some (take d (drop w r)) else None)
             (rev [1 ..< Suc (length (takeWhile is_digit (drop w r)))]))
           (rev [0 ..< Suc (length (takeWhile is_space r))]) = Some g"
    unfolding if_P[OF pre] .
  from first_some_Some[OF outer] obtain w where
    w: "w \<in> set (rev [0 ..< Suc (length (takeWhile is_space r))])"
    and inner: "first_some (\<lambda>d. if take 3 (drop (w + d) r) = ''/10''
                            then Some (take d (drop w r)) else None)
             (rev [1 ..< Suc (length (takeWhile is_digit (drop w r)))]) = Some g"
    by blast
  from first_some_Some[OF inner] obtain d where
    d: "d \<in> set (rev [1 ..< Suc (length (takeWhile is_digit (drop w r)))])"
    and dd: "(if take 3 (drop (w + d) r) = ''/10''
                            then Some (take d (drop w r)) else None) = Some g"
    by blast
  from dd have t: "take 3 (drop (w + d) r) = ''/10''" and g: "g = take d (drop w r)"
    by (auto split: if_splits)
  have wle: "w \<le> length (takeWhile is_space r)" using w by auto
  have dle: "1 \<le> d" "d \<le> length (takeWhile is_digit (drop w r))" using d by auto
  have ws: "\<forall>c \<in> set (take w r). is_space c"
    using wle by (rule take_le_takeWhile)
  have gd: "\<forall>c \<in> set g. is_digit c"
    unfolding g using dle(2) by (rule take_le_takeWhile)
  have "length (takeWhile is_digit (drop w r)) \<le> length (drop w r)"
    by (rule length_takeWhile_le)
  with dle have "g \<noteq> []" unfolding g by auto
  moreover have "r = take w r @ g @ ''/10'' @ drop 3 (drop (w + d) r)"
  proof -
    have e1: "r = take w r @ drop w r"
      by (rule append_take_drop_id[symmetric])
    have e2: "drop w r = g @ drop d (drop w r)"
      unfolding g by (rule append_take_drop_id[symmetric])
    have e3: "drop d (drop w r) = drop (w + d) r"
      by (simp add: add.commute)
    have "take 3 (drop (w + d) r) @ drop 3 (drop (w + d) r) = drop (w + d) r"
      by (rule append_take_drop_id)
    then have e4: "drop (w + d) r = ''/10'' @ drop 3 (drop (w + d) r)"
      unfolding t by (rule sym)
    show ?thesis using e1 e2 e3 e4 by metis
  qed
  ultimately show ?thesis using s ws gd by metis
qed

lemma first_some_hd: "f x = Some y \<Longrightarrow> first_some f (x # xs) = Some y"
  by simp

lemma rev_upt_last: "i \<le> n \<Longrightarrow> rev [i ..< Suc n] = n # rev [i ..< n]"
  by simp

lemma match_here_complete:
  assumes "\<forall>c \<in> set ws. is_space c" "ds \<noteq> []" "\<forall>c \<in> set ds. is_digit c"
  shows "match_here (''Score:'' @ ws @ ds @ ''/10'' @ post) = Some ds"
proof -
  define r where "r = ws @ ds @ ''/10'' @ post"
  define s where "s = ''Score:'' @ r"
  from assms obtain c cs where ds: "ds = c # cs" by (cases ds) auto
  with assms have "\<not> is_space c" using space_not_digit by auto
  then have tw: "takeWhile is_space r = ws"
    unfolding r_def ds using assms(1) by simp
  have dr: "drop (length ws) r = ds @ ''/10'' @ post" unfolding r_def by simp
  have td: "takeWhile is_digit (drop (length ws) r) = ds"
    unfolding dr using assms(3) slash_not_digit by simp
  have t3: "take 3 (drop (length ws + length ds) r) = ''/10''"
    unfolding r_def by simp
  have tk: "take (length ds) (drop (length ws) r) = ds"
    unfolding dr by simp
  have one: "1 \<le> length ds" using assms(2) by (cases ds) auto
  have inner: "first_some (\<lambda>d. if take 3 (drop (length ws + d) r) = ''/10''
                            then Some (take d (drop (length ws) r)) else None)
             (rev [1 ..< Suc (length (takeWhile is_digit (drop (length ws) r)))]) = Some ds"
    unfolding td rev_upt_last[OF one]
    by (rule first_some_hd) (simp add: t3 tk)
  have outer: "first_some (\<lambda>w.
           first_some (\<lambda>d. if take 3 (drop (w + d) r) = ''/10''
                            then Some (take d (drop w r)) else None)
             (rev [1 ..< Suc (length (takeWhile is_digit (drop w r)))]))
           (rev [0 ..< Suc (length (takeWhile is_space r))]) = Some ds"
    unfolding tw rev_upt_last[OF le0]
    by (rule first_some_hd) (rule inner)
  have pre: "take 6 s = ''Score:''" and dr6: "drop 6 s = r"
    unfolding s_def by simp_all
  have "match_here s = Some ds"
    unfolding match_here_def Let_def dr6 if_P[OF pre] by (rule outer)
  then show ?thesis unfolding s_def r_def .
qed

lemma re_search_sound:
  "re_search s = Some g \<Longrightarrow> \<exists>pre suf. s = pre @ suf \<and> match_here suf = Some g"
proof (induction s)
  case Nil
  then show ?case by auto
next
  case (Cons c cs)
  show ?case
  proof (cases "match_here (c # cs)")
    case None
    with Cons obtain pre suf where "cs = pre @ suf" "match_here suf = Some g" by auto
    then have "c # cs = (c # pre) @ suf \<and> match_here suf = Some g" by simp
    then show ?thesis by blast
  next
    case (Some a)
    with Cons.prems have "match_here (c # cs) = Some g" by simp
    then have "c # cs = [] @ (c # cs) \<and> match_here (c # cs) = Some g" by simp
    then show ?thesis by blast
  qed
qed

lemma re_search_complete:
  "match_here suf \<noteq> None \<Longrightarrow> re_search (pre @ suf) \<noteq> None"
proof (induction pre)
  case Nil
  then show ?case by (cases suf) auto
next
  case (Cons c pre)
  then show ?case by (auto split: option.splits)
qed

lemma re_search_iff: "re_search text \<noteq> None \<longleftrightarrow> has_score_pattern text"
proof
  assume "re_search text \<noteq> None"
  then obtain g where "re_search text = Some g" by auto
  from re_search_sound[OF this] obtain pre suf where
    "text = pre @ suf" "match_here suf = Some g" by auto
  with match_here_sound[of suf g] show "has_score_pattern text"
    unfolding has_score_pattern_def by blast
next
  assume "has_score_pattern text"
  then obtain pre ws ds post where t: "text = pre @ ''Score:'' @ ws @ ds @ ''/10'' @ post"
    and h: "\<forall>c \<in> set ws. is_space c" "ds \<noteq> []" "\<forall>c \<in> set ds. is_digit c"
    unfolding has_score_pattern_def by blast
  from match_here_complete[OF h, of post]
  have "match_here (''Score:'' @ ws @ ds @ ''/10'' @ post) \<noteq> None" by simp
  from re_search_complete[OF this, of pre] show "re_search text \<noteq> None"
    using t by simp
qed

lemma matches_at_iff: "matches_at s p ds \<longleftrightarrow> match_here (drop p s) = Some ds"
proof
  assume "matches_at s p ds"
  then obtain ws post where d: "drop p s = ''Score:'' @ ws @ ds @ ''/10'' @ post"
    and h: "\<forall>c \<in> set ws. is_space c" "ds \<noteq> []" "\<forall>c \<in> set ds. is_digit c"
    unfolding matches_at_def by blast
  show "match_here (drop p s) = Some ds"
    unfolding d using h by (rule match_here_complete)
next
  assume "match_here (drop p s) = Some ds"
  from match_here_sound[OF this] show "matches_at s p ds"
    unfolding matches_at_def by blast
qed

lemma has_score_pattern_iff: "has_score_pattern s \<longleftrightarrow> (\<exists>p ds. matches_at s p ds)"
proof
  assume "has_score_pattern s"
  then obtain pre ws ds post where s: "s = pre @ ''Score:'' @ ws @ ds @ ''/10'' @ post"
    and h: "\<forall>c \<in> set ws. is_space c" "ds \<noteq> []" "\<forall>c \<in> set ds. is_digit c"
    unfolding has_score_pattern_def by blast
  have "drop (length pre) s = ''Score:'' @ ws @ ds @ ''/10'' @ post"
    unfolding s by simp
  with h have "matches_at s (length pre) ds" unfolding matches_at_def by blast
  then show "\<exists>p ds. matches_at s p ds" by blast
next
  assume "\<exists>p ds. matches_at s p ds"
  then obtain p ds ws post where d: "drop p s = ''Score:'' @ ws @ ds @ ''/10'' @ post"
    and h: "\<forall>c \<in> set ws. is_space c" "ds \<noteq> []" "\<forall>c \<in> set ds. is_digit c"
    unfolding matches_at_def by blast
  have "s = take p s @ drop p s" by simp
  then have "s = take p s @ ''Score:'' @ ws @ ds @ ''/10'' @ post" unfolding d .
  with h show "has_score_pattern s" unfolding has_score_pattern_def by blast
qed

lemma re_search_first:
  "match_here (drop p s) = Some g \<Longrightarrow> (\<forall>q < p. match_here (drop q s) = None)
   \<Longrightarrow> re_search s = Some g"
proof (induction s arbitrary: p)
  case Nil
  then show ?case by simp
next
  case (Cons c cs)
  show ?case
  proof (cases p)
    case 0
    with Cons.prems show ?thesis by simp
  next
    case (Suc p')
    with Cons.prems have here: "match_here (c # cs) = None" by force
    from Cons.prems Suc have m: "match_here (drop p' cs) = Some g" by simp
    have "\<forall>q < p'. match_here (drop q cs) = None"
    proof (intro allI impI)
      fix q assume "q < p'"
      then have "Suc q < p" using Suc by simp
      with Cons.prems(2) have "match_here (drop (Suc q) (c # cs)) = None" by blast
      then show "match_here (drop q cs) = None" by simp
    qed
    from Cons.IH[OF m this] here show ?thesis by simp
  qed
qed

lemma extract_score_first_match:
  assumes "matches_at s p ds" "\<forall>q < p. \<forall>ds'. \<not> matches_at s q ds'"
  shows "extract_score s = py_int ds"
proof -
  from assms(1) have m: "match_here (drop p s) = Some ds" by (simp add: matches_at_iff)
  have "\<forall>q < p. match_here (drop q s) = None"
  proof (intro allI impI)
    fix q assume "q < p"
    with assms(2) have "\<forall>ds'. match_here (drop q s) \<noteq> Some ds'" by (simp add: matches_at_iff)
    then show "match_here (drop q s) = None" by (cases "match_here (drop q s)") auto
  qed
  from re_search_first[OF m this] show ?thesis by (simp add: extract_score_def)
qed

section \<open>Properties of the seen-set store\<close>

lemma hashable_json_of: "hashable (json_of k) = Inr k"
  by (cases k) simp_all

lemma hash_all_json_of: "hash_all (map json_of ks) = Inr ks"
  by (induction ks) (simp_all add: hashable_json_of)

lemma load_save: "load_seen_jobs (save_seen_jobs seen) = Inr (remdups seen)"
  by (simp add: load_seen_jobs_def save_seen_jobs_def py_set_def hash_all_json_of)







lemma load_Absent: "load_seen_jobs Absent = Inr []"
  by (simp add: load_seen_jobs_def)

lemma load_one:
  "load_seen_jobs (Document (JArr [JStr u])) = Inr [PStr u]"
  by (simp add: load_seen_jobs_def py_set_def)



section \<open>Properties of the Scorer\<close>

lemma extract_score_no_pattern:
  "\<not> has_score_pattern s \<Longrightarrow> extract_score s = Inr 0"
  using re_search_iff[of s] by (simp add: extract_score_def)

lemma extract_score_nonneg: "extract_score s = Inr n \<Longrightarrow> 0 \<le> n"
  by (auto simp: extract_score_def py_int_def split: option.splits if_splits)

lemma first_match_exists:
  assumes "has_score_pattern s"
  shows "\<exists>p ds. matches_at s p ds \<and> (\<forall>q < p. \<forall>ds'. \<not> matches_at s q ds')"
proof -
  from assms have ex: "\<exists>p. \<exists>ds. matches_at s p ds" by (simp add: has_score_pattern_iff)
  define p where "p = (LEAST p. \<exists>ds. matches_at s p ds)"
  from LeastI_ex[OF ex] obtain ds where "matches_at s p ds" unfolding p_def by blast
  moreover have "\<forall>q < p. \<forall>ds'. \<not> matches_at s q ds'"
    using not_less_Least[of _ "\<lambda>p. \<exists>ds. matches_at s p ds"] unfolding p_def by blast
  ultimately show ?thesis by blast
qed

lemma decimal_snoc: "decimal (ds @ [c]) = 10 * decimal ds + digit_val c"
  by (simp add: decimal_def)

lemma decimal_nines: "int (decimal (replicate k (CHR ''9''))) = 10 ^ k - 1"
proof (induction k)
  case 0
  then show ?case by (simp add: decimal_def)
next
  case (Suc k)
  have "replicate (Suc k) (CHR ''9'') = replicate k (CHR ''9'') @ [CHR ''9'']"
    by (simp add: replicate_append_same)
  then have "int (decimal (replicate (Suc k) (CHR ''9'')))
               = 10 * int (decimal (replicate k (CHR ''9''))) + 9"
    by (simp only: decimal_snoc) (simp add: digit_val_def)
  with Suc show ?case by simp
qed

lemma extract_score_nines:
  "extract_score (''Score: '' @ replicate (Suc k) (CHR ''9'') @ ''/10'')
     = (if Suc k > 4300 then Inl ValueError else Inr (10 ^ Suc k - 1))"
proof -
  let ?s = "''Score: '' @ replicate (Suc k) (CHR ''9'') @ ''/10''"
  have sp: "\<forall>c \<in> set '' ''. is_space c" by (simp add: is_space_def)
  have ne: "replicate (Suc k) (CHR ''9'') \<noteq> []" by simp
  have dg: "\<forall>c \<in> set (replicate (Suc k) (CHR ''9'')). is_digit c" by (simp add: is_digit_def)
  have "drop 0 ?s = ''Score:'' @ '' '' @ replicate (Suc k) (CHR ''9'') @ ''/10'' @ []"
    by simp
  with sp ne dg have "matches_at ?s 0 (replicate (Suc k) (CHR ''9''))"
    unfolding matches_at_def by blast
  then have "extract_score ?s = py_int (replicate (Suc k) (CHR ''9''))"
    by (rule extract_score_first_match) simp
  then show ?thesis
    using decimal_nines[of "Suc k"] by (simp add: py_int_def del: replicate.simps power.simps)
qed

lemma no_pattern_example: "\<not> has_score_pattern ''Looks like a good fit''"
proof -
  have "re_search ''Looks like a good fit'' = None" by code_simp
  then show ?thesis using re_search_iff[of "''Looks like a good fit''"] by simp
qed

lemma match_example: "matches_at ''ok Score: 11/10'' 3 ''11''"
proof -
  have "match_here (drop 3 ''ok Score: 11/10'') = Some ''11''" by code_simp
  then show ?thesis by (simp only: matches_at_iff)
qed

lemma no_earlier_match_example: "\<forall>q < 3. \<forall>ds'. \<not> matches_at ''ok Score: 11/10'' q ds'"
proof -
  have "match_here (drop 0 ''ok Score: 11/10'') = None"
    "match_here (drop (Suc 0) ''ok Score: 11/10'') = None"
    "match_here (drop (Suc (Suc 0)) ''ok Score: 11/10'') = None"
    by code_simp+
  then have "\<forall>q < 3. match_here (drop q ''ok Score: 11/10'') = None"
    by (simp only: numeral_3_eq_3 One_nat_def less_Suc_eq not_less_zero) blast
  then show ?thesis by (simp only: matches_at_iff) simp
qed

lemma re_search_here: "match_here s = Some g \<Longrightarrow> re_search s = Some g"
  by (cases s) simp_all

lemma extract_score_long_reply: "extract_score long_reply = Inl ValueError"
proof -
  have sp: "\<forall>c \<in> set '' ''. is_space c" by (simp add: is_space_def)
  have ne: "replicate 4301 (CHR ''1'') \<noteq> []" by simp
  have dg: "\<forall>c \<in> set (replicate 4301 (CHR ''1'')). is_digit c" by (simp add: is_digit_def)
  have "match_here (''Score:'' @ '' '' @ replicate 4301 (CHR ''1'') @ ''/10'' @ [])
          = Some (replicate 4301 (CHR ''1''))"
    using sp ne dg by (rule match_here_complete)
  then have "match_here long_reply = Some (replicate 4301 (CHR ''1''))"
    by (simp add: long_reply_def)
  then have "re_search long_reply = Some (replicate 4301 (CHR ''1''))"
    by (rule re_search_here)
  then show ?thesis by (simp add: extract_score_def py_int_def)
qed

text \<open>
  C5, as stated, fails: the response \<open>Score: 11/10\<close> contains the pattern and the
  extracted score is 11, outside the range from 0 to 10.
\<close>

theorem extract_score_eleven:
  "extract_score ''Score: 11/10'' = Inr 11 \<and> extract_score ''Score: 11/10'' \<notin> Inr ` {0..10}"
  by code_simp

text \<open>
  C5, amended: for every response text, the score is 0 when the text does not contain
  the pattern.  When it does, there is a first match, and the score is the decimal value
  of the digits of that match, whatever it is: \<open>int\<close> refuses only runs of more than 4300
  digits, with \<open>ValueError\<close>.  Every score that is returned is a non-negative integer,
  and no bound holds: \<open>k\<close> nines before \<open>/10\<close> give the score \<open>10 ^ k - 1\<close>.
\<close>

theorem extract_score_value:
  "(\<not> has_score_pattern s \<longrightarrow> extract_score s = Inr 0)
   \<and> (has_score_pattern s \<longrightarrow>
        (\<exists>p ds. matches_at s p ds \<and> (\<forall>q < p. \<forall>ds'. \<not> matches_at s q ds')))
   \<and> (\<forall>p ds. matches_at s p ds \<and> (\<forall>q < p. \<forall>ds'. \<not> matches_at s q ds') \<longrightarrow>
        extract_score s
          = (if length ds > 4300 then Inl ValueError else Inr (int (decimal ds))))
   \<and> (\<forall>n. extract_score s = Inr n \<longrightarrow> 0 \<le> n)
   \<and> extract_score (''Score: '' @ replicate (Suc k) (CHR ''9'') @ ''/10'')
        = (if Suc k > 4300 then Inl ValueError else Inr (10 ^ Suc k - 1))"
proof -
  have "\<forall>p ds. matches_at s p ds \<and> (\<forall>q < p. \<forall>ds'. \<not> matches_at s q ds') \<longrightarrow>
        extract_score s
          = (if length ds > 4300 then Inl ValueError else Inr (int (decimal ds)))"
  proof (intro allI impI)
    fix p ds
    assume "matches_at s p ds \<and> (\<forall>q < p. \<forall>ds'. \<not> matches_at s q ds')"
    then have "extract_score s = py_int ds"
      using extract_score_first_match[of s p ds] by blast
    then show "extract_score s
          = (if length ds > 4300 then Inl ValueError else Inr (int (decimal ds)))"
      by (simp add: py_int_def)
  qed
  then show ?thesis
    using extract_score_no_pattern[of s] first_match_exists[of s] extract_score_nonneg[of s]
          extract_score_nines[of k]
    by blast
qed

text \<open>
  C5, amended, at a response without the pattern, at one whose first match starts at
  position 3, and at two nines.
\<close>

theorem extract_score_value_witness:
  "\<not> has_score_pattern ''Looks like a good fit''
   \<and> extract_score ''Looks like a good fit'' = Inr 0
   \<and> has_score_pattern ''ok Score: 11/10''
   \<and> matches_at ''ok Score: 11/10'' 3 ''11''
   \<and> \<not> matches_at ''ok Score: 11/10'' 0 ''11''
   \<and> extract_score ''ok Score: 11/10'' = Inr 11
   \<and> extract_score ''Score: 99/10'' = Inr 99"
proof -
  have d: "int (decimal ''11'') = 11" by code_simp
  have l: "\<not> length ''11'' > 4300" by simp
  have h: "has_score_pattern ''ok Score: 11/10''"
    using match_example has_score_pattern_iff by blast
  have n: "\<not> matches_at ''ok Score: 11/10'' 0 ''11''"
    using no_earlier_match_example by simp
  have r: "''Score: '' @ replicate (Suc 1) (CHR ''9'') @ ''/10'' = ''Score: 99/10''"
    by (simp add: numeral_2_eq_2)
  from extract_score_value[of "''ok Score: 11/10''" 1]
  have "extract_score ''ok Score: 11/10'' = Inr 11
        \<and> extract_score ''Score: 99/10'' = Inr 99"
    using match_example no_earlier_match_example d l r by (simp del: replicate.simps) 
  then show ?thesis
    using extract_score_value[of "''Looks like a good fit''" 0] no_pattern_example h
          match_example n
    by simp
qed

text \<open>
  C7, as stated, fails: when the response lacks the pattern, \<open>score_job\<close> returns score
  0 paired with the response itself, not with the fallback rationale.
\<close>

theorem score_job_keeps_response:
  "score_job vague 0 sample_job = (0, ''Looks like a good fit'', [])
   \<and> fst (snd (score_job vague 0 sample_job)) \<noteq> fallback"
  by code_simp

text \<open>
  C7, amended: \<open>score_job\<close> always returns a score, a rationale and its log lines, and
  the score is never negative.  When the request fails, when the content is \<open>None\<close>,
  or when the conversion of the digits fails, it returns score 0 with the fallback
  rationale and logs the error.  When the response lacks the pattern it returns score 0
  with the response text as rationale.
\<close>

theorem score_job_total:
  "(\<forall>e. openai E i (prompt_of E job) = Inl e \<longrightarrow>
        score_job E i job = (0, fallback, [OpenAI_error e]))
   \<and> (openai E i (prompt_of E job) = Inr None \<longrightarrow>
        score_job E i job = (0, fallback, [OpenAI_error TypeError]))
   \<and> (\<forall>content e. openai E i (prompt_of E job) = Inr (Some content) \<and> extract_score content = Inl e \<longrightarrow>
        score_job E i job = (0, fallback, [OpenAI_error e]))
   \<and> (\<forall>content. openai E i (prompt_of E job) = Inr (Some content) \<and> \<not> has_score_pattern content \<longrightarrow>
        score_job E i job = (0, content, []))
   \<and> 0 \<le> fst (score_job E i job)"
proof -
  have "0 \<le> fst (score_job E i job)"
    by (auto simp: score_job_def split: sum.splits option.splits dest: extract_score_nonneg)
  then show ?thesis
    by (auto simp: score_job_def extract_score_no_pattern)
qed

text \<open>
  C7, amended, at a failing request, at a response without the pattern and at a
  response whose digits \<open>int\<close> refuses.
\<close>

theorem score_job_total_witness:
  "openai quiet 0 (prompt_of quiet sample_job) = Inl OpenAIError
   \<and> score_job quiet 0 sample_job = (0, fallback, [OpenAI_error OpenAIError])
   \<and> openai vague 0 (prompt_of vague sample_job) = Inr (Some ''Looks like a good fit'')
   \<and> \<not> has_score_pattern ''Looks like a good fit''
   \<and> score_job vague 0 sample_job = (0, ''Looks like a good fit'', [])
   \<and> openai verbose 0 (prompt_of verbose sample_job) = Inr (Some long_reply)
   \<and> extract_score long_reply = Inl ValueError
   \<and> score_job verbose 0 sample_job = (0, fallback, [OpenAI_error ValueError])"
proof -
  have a: "openai quiet 0 (prompt_of quiet sample_job) = Inl OpenAIError"
    by (simp add: quiet_def)
  have b: "openai vague 0 (prompt_of vague sample_job) = Inr (Some ''Looks like a good fit'')"
    by (simp add: vague_def quiet_def)
  have c: "openai verbose 0 (prompt_of verbose sample_job) = Inr (Some long_reply)"
    by (simp add: verbose_def quiet_def)
  show ?thesis
    using score_job_total[of quiet 0 sample_job] score_job_total[of vague 0 sample_job]
          score_job_total[of verbose 0 sample_job]
          a b c no_pattern_example extract_score_long_reply
    by simp
qed

section \<open>Properties of the source adapters\<close>

lemma collect_raises:
  "x \<in> set xs \<Longrightarrow> f x = Inl e \<Longrightarrow> \<exists>e'. collect f xs = Inl e'"
  by (induction xs) (auto split: sum.splits)

text \<open>
  C9: whatever is raised inside the \<open>try\<close> block of an adapter, be it by the request, by
  the decoding or by the shape of the decoded value, the adapter logs it and returns no
  listing, also when the failing entry comes after well-formed ones; the pass goes on
  with the concatenation of what the three adapters return.
\<close>

theorem adapters_catch_every_failure:
  "(\<forall>e. remoteok_try E = Inl e \<longrightarrow> fetch_remoteok_jobs E = ([RemoteOK_error e], []))
   \<and> (\<forall>e. yc_try E = Inl e \<longrightarrow> fetch_ycombinator_jobs E = ([YC_error e], []))
   \<and> (\<forall>e. google_try E = Inl e \<longrightarrow> fetch_google_jobs E = ([Google_Jobs_error e], []))
   \<and> (\<forall>e. remoteok_http E = Inl e \<longrightarrow> remoteok_try E = Inl e)
   \<and> (\<forall>e. yc_http E = Inl e \<longrightarrow> yc_try E = Inl e)
   \<and> (\<forall>e. serpapi_http E = Inl e \<longrightarrow> google_try E = Inl e)
   \<and> (\<forall>items x e. remoteok_http E = Inr (JArr items) \<and> x \<in> set (drop 1 items)
          \<and> remoteok_item E x = Inl e \<longrightarrow> (\<exists>e'. remoteok_try E = Inl e'))
   \<and> (\<forall>anchors x e. yc_http E = Inr anchors \<and> x \<in> set anchors \<and> yc_item x = Inl e
          \<longrightarrow> (\<exists>e'. yc_try E = Inl e'))
   \<and> (\<forall>kvs items x e. serpapi_http E = Inr (JObj kvs)
          \<and> py_get kvs ''jobs_results'' (JArr []) = JArr items
          \<and> x \<in> set items \<and> google_item x = Inl e \<longrightarrow> (\<exists>e'. google_try E = Inl e'))
   \<and> gathered E = snd (fetch_remoteok_jobs E) @ snd (fetch_ycombinator_jobs E)
                    @ snd (fetch_google_jobs E)"
proof -
  have a: "\<forall>e. remoteok_try E = Inl e \<longrightarrow> fetch_remoteok_jobs E = ([RemoteOK_error e], [])"
    by (simp add: fetch_remoteok_jobs_def)
  have b: "\<forall>e. yc_try E = Inl e \<longrightarrow> fetch_ycombinator_jobs E = ([YC_error e], [])"
    by (simp add: fetch_ycombinator_jobs_def)
  have c: "\<forall>e. google_try E = Inl e \<longrightarrow> fetch_google_jobs E = ([Google_Jobs_error e], [])"
    by (simp add: fetch_google_jobs_def)
  have d: "\<forall>e. remoteok_http E = Inl e \<longrightarrow> remoteok_try E = Inl e"
    by (simp add: remoteok_try_def)
  have e: "\<forall>e. yc_http E = Inl e \<longrightarrow> yc_try E = Inl e"
    by (simp add: yc_try_def)
  have f: "\<forall>e. serpapi_http E = Inl e \<longrightarrow> google_try E = Inl e"
    by (simp add: google_try_def)
  have g: "\<forall>items x e. remoteok_http E = Inr (JArr items) \<and> x \<in> set (drop 1 items)
          \<and> remoteok_item E x = Inl e \<longrightarrow> (\<exists>e'. remoteok_try E = Inl e')"
    using collect_raises[of _ _ "remoteok_item E"]
    by (auto simp: remoteok_try_def py_slice1_def)
  have h: "\<forall>anchors x e. yc_http E = Inr anchors \<and> x \<in> set anchors \<and> yc_item x = Inl e
          \<longrightarrow> (\<exists>e'. yc_try E = Inl e')"
    using collect_raises[of _ _ yc_item]
    by (auto simp: yc_try_def)
  have i: "\<forall>kvs items x e. serpapi_http E = Inr (JObj kvs)
          \<and> py_get kvs ''jobs_results'' (JArr []) = JArr items
          \<and> x \<in> set items \<and> google_item x = Inl e \<longrightarrow> (\<exists>e'. google_try E = Inl e')"
    using collect_raises[of _ _ google_item]
    by (auto simp: google_try_def)
  have j: "gathered E = snd (fetch_remoteok_jobs E) @ snd (fetch_ycombinator_jobs E)
                    @ snd (fetch_google_jobs E)"
    by (simp add: gathered_def gather_jobs_def split: prod.splits)
  from a b c d e f g h i j show ?thesis by blast
qed

text \<open>
  C9 at requests that fail and at responses whose shape makes the parsing fail.
\<close>

theorem adapters_catch_every_failure_witness:
  "remoteok_http quiet = Inl RequestException
   \<and> fetch_remoteok_jobs quiet = ([RemoteOK_error RequestException], [])
   \<and> fetch_ycombinator_jobs quiet = ([YC_error RequestException], [])
   \<and> fetch_google_jobs quiet = ([Google_Jobs_error RequestException], [])
   \<and> remoteok_try misshapen = Inl TypeError
   \<and> fetch_remoteok_jobs misshapen = ([RemoteOK_error TypeError], [])
   \<and> yc_item \<lparr>h2_text = Some ''Data Engineer'', p_text = Some ''Remote'', href = Some ''/jobs/1''\<rparr>
       = Inr [\<lparr>title = JStr ''Data Engineer'', description = JStr ''Remote'',
                url = JStr ''https://www.ycombinator.com/jobs/1''\<rparr>]
   \<and> yc_item \<lparr>h2_text = None, p_text = None, href = Some ''/jobs/2''\<rparr> = Inl AttributeError
   \<and> yc_try misshapen = Inl AttributeError
   \<and> fetch_ycombinator_jobs misshapen = ([YC_error AttributeError], [])
   \<and> google_item (JObj [(''title'', JStr ''Data Scientist'')]) = Inl KeyError
   \<and> google_try misshapen = Inl KeyError
   \<and> fetch_google_jobs misshapen = ([Google_Jobs_error KeyError], [])
   \<and> gathered misshapen = []"
proof -
  have q: "remoteok_http quiet = Inl RequestException" "yc_http quiet = Inl RequestException"
    "serpapi_http quiet = Inl RequestException"
    by (simp_all add: quiet_def)
  have m: "remoteok_try misshapen = Inl TypeError" "yc_try misshapen = Inl AttributeError"
    "google_try misshapen = Inl KeyError"
    by code_simp+
  have i: "yc_item \<lparr>h2_text = Some ''Data Engineer'', p_text = Some ''Remote'', href = Some ''/jobs/1''\<rparr>
       = Inr [\<lparr>title = JStr ''Data Engineer'', description = JStr ''Remote'',
                url = JStr ''https://www.ycombinator.com/jobs/1''\<rparr>]"
    "yc_item \<lparr>h2_text = None, p_text = None, href = Some ''/jobs/2''\<rparr> = Inl AttributeError"
    "google_item (JObj [(''title'', JStr ''Data Scientist'')]) = Inl KeyError"
    by code_simp+
  show ?thesis
    using adapters_catch_every_failure[of quiet] adapters_catch_every_failure[of misshapen] q m i
    by simp
qed

section \<open>Properties of the loop\<close>

lemma loop_body_Inl:
  "hashable (url job) = Inl e \<Longrightarrow> loop_body E seen i job ns = (Inl e, [])"
  by (simp add: loop_body_def)

lemma loop_body_seen:
  "hashable (url job) = Inr k \<Longrightarrow> k \<in> set seen \<Longrightarrow>
   loop_body E seen i job ns = (Inr ns, [Log (Skipped_duplicate (py_str E (title job)))])"
  by (simp add: loop_body_def)

lemma loop_body_high:
  assumes "hashable (url job) = Inr k" "k \<notin> set seen" "score_job E i job = (sc, ex, errs)" "7 \<le> sc"
  shows "loop_body E seen i job ns =
     (Inr (List.insert k ns),
      [Call_score_job job] @ map Log errs @ [Log (Scored (py_str E (title job)) sc)]
      @ [Call_send_to_slack (slack_message E job sc ex)]
      @ map Log (send_to_slack E i (slack_message E job sc ex))
      @ [Sleep 2])"
  using assms by (simp add: loop_body_def Let_def)

lemma loop_body_low:
  assumes "hashable (url job) = Inr k" "k \<notin> set seen" "score_job E i job = (sc, ex, errs)" "\<not> 7 \<le> sc"
  shows "loop_body E seen i job ns =
     (Inr ns,
      [Call_score_job job] @ map Log errs @ [Log (Scored (py_str E (title job)) sc)]
      @ [Log (Skipped_low_score (py_str E (title job)) sc)] @ [Sleep 2])"
  using assms by (simp add: loop_body_def Let_def)

lemma notifications_Log [simp]: "notifications (map Log ls) = []"
  by (induction ls) (simp_all add: notifications_def)

lemma notifications_append [simp]:
  "notifications (xs @ ys) = notifications xs @ notifications ys"
  by (simp add: notifications_def)

lemma notifications_Cons [simp]:
  "notifications (e # es) = (if is_notify e then e # notifications es else notifications es)"
  by (simp add: notifications_def)

lemma notifications_Nil [simp]: "notifications [] = []"
  by (simp add: notifications_def)

lemma loop_body_cases:
  obtains (raised) e where "hashable (url job) = Inl e" "loop_body E seen i job ns = (Inl e, [])"
  | (dup) k where "hashable (url job) = Inr k" "k \<in> set seen"
      "loop_body E seen i job ns = (Inr ns, [Log (Skipped_duplicate (py_str E (title job)))])"
  | (high) k sc ex errs where "hashable (url job) = Inr k" "k \<notin> set seen"
      "score_job E i job = (sc, ex, errs)" "7 \<le> sc"
      "loop_body E seen i job ns =
     (Inr (List.insert k ns),
      [Call_score_job job] @ map Log errs @ [Log (Scored (py_str E (title job)) sc)]
      @ [Call_send_to_slack (slack_message E job sc ex)]
      @ map Log (send_to_slack E i (slack_message E job sc ex))
      @ [Sleep 2])"
  | (low) k sc ex errs where "hashable (url job) = Inr k" "k \<notin> set seen"
      "score_job E i job = (sc, ex, errs)" "\<not> 7 \<le> sc"
      "loop_body E seen i job ns =
     (Inr ns,
      [Call_score_job job] @ map Log errs @ [Log (Scored (py_str E (title job)) sc)]
      @ [Log (Skipped_low_score (py_str E (title job)) sc)] @ [Sleep 2])"
proof (cases "hashable (url job)")
  case (Inl e)
  then show ?thesis using raised loop_body_Inl by blast
next
  case (Inr k)
  show ?thesis
  proof (cases "k \<in> set seen")
    case True
    then show ?thesis using dup Inr loop_body_seen by blast
  next
    case False
    obtain sc ex errs where s: "score_job E i job = (sc, ex, errs)"
      by (cases "score_job E i job") auto
    show ?thesis
    proof (cases "7 \<le> sc")
      case True
      then show ?thesis using high[OF Inr False s True] loop_body_high[OF Inr False s True] by blast
    next
      case False': False
      then show ?thesis using low[OF Inr False s False'] loop_body_low[OF Inr False s False'] by blast
    qed
  qed
qed

lemma loop_body_events_indep:
  "snd (loop_body E seen i job ns) = snd (loop_body E seen i job ns')"
  by (cases rule: loop_body_cases[of job E seen i ns]; cases rule: loop_body_cases[of job E seen i ns']) auto

lemma loop_body_fst:
  "fst (loop_body E seen i job ns) =
     (case hashable (url job) of Inl e \<Rightarrow> Inl e
      | Inr k \<Rightarrow> Inr (if k \<notin> set seen \<and> 7 \<le> fst (score_job E i job) then List.insert k ns else ns))"
  by (cases rule: loop_body_cases[of job E seen i ns]) auto

lemma loop_body_unseen:
  assumes "hashable (url job) = Inr k" "k \<notin> set seen"
  shows "Call_score_job job \<in> set (snd (loop_body E seen i job ns))"
    and "notifications (snd (loop_body E seen i job ns)) =
      (if 7 \<le> fst (score_job E i job)
       then [Call_send_to_slack (slack_message E job (fst (score_job E i job))
                                   (fst (snd (score_job E i job))))]
       else [])"
proof -
  obtain sc ex errs where sj: "score_job E i job = (sc, ex, errs)"
    by (cases "score_job E i job") auto
  show "Call_score_job job \<in> set (snd (loop_body E seen i job ns))"
    using loop_body_high[OF assms sj, of ns] loop_body_low[OF assms sj, of ns]
    by (cases "7 \<le> sc") simp_all
  show "notifications (snd (loop_body E seen i job ns)) =
      (if 7 \<le> fst (score_job E i job)
       then [Call_send_to_slack (slack_message E job (fst (score_job E i job))
                                   (fst (snd (score_job E i job))))]
       else [])"
    using loop_body_high[OF assms sj, of ns] loop_body_low[OF assms sj, of ns] sj
    by (cases "7 \<le> sc") simp_all
qed

lemma loop_body_notify:
  assumes "e \<in> set (snd (loop_body E seen i job ns))" "is_notify e"
  shows "\<exists>k. hashable (url job) = Inr k \<and> k \<notin> set seen \<and> 7 \<le> fst (score_job E i job)"
  using assms
  by (cases rule: loop_body_cases[of job E seen i ns]) auto

lemma main_loop_tags:
  "(n, e) \<in> set (snd (main_loop E seen i jobs ns)) \<Longrightarrow> i \<le> n \<and> n < i + length jobs"
proof (induction jobs arbitrary: i ns)
  case Nil
  then show ?case by simp
next
  case (Cons job jobs)
  obtain r evs where b: "loop_body E seen i job ns = (r, evs)"
    by (cases "loop_body E seen i job ns") auto
  show ?case
  proof (cases r)
    case (Inl err)
    with Cons.prems b show ?thesis by auto
  next
    case (Inr ns')
    obtain r' tr where m: "main_loop E seen (Suc i) jobs ns' = (r', tr)"
      by (cases "main_loop E seen (Suc i) jobs ns'") auto
    from Cons.prems b Inr m have "(n, e) \<in> set (map (Pair i) evs) \<or> (n, e) \<in> set tr" by auto
    then show ?thesis
    proof
      assume "(n, e) \<in> set (map (Pair i) evs)"
      then show ?thesis by auto
    next
      assume "(n, e) \<in> set tr"
      then have "(n, e) \<in> set (snd (main_loop E seen (Suc i) jobs ns'))" using m by simp
      from Cons.IH[OF this] show ?thesis by simp
    qed
  qed
qed

lemma events_at_append [simp]: "events_at n (xs @ ys) = events_at n xs @ events_at n ys"
  by (simp add: events_at_def)

lemma events_at_tagged: "events_at n (map (Pair i) evs) = (if n = i then evs else [])"
  by (induction evs) (auto simp: events_at_def)

lemma events_at_outside:
  "n < i \<Longrightarrow> events_at n (snd (main_loop E seen i jobs ns)) = []"
proof -
  assume "n < i"
  then have "\<forall>x \<in> set (snd (main_loop E seen i jobs ns)). fst x \<noteq> n"
    using main_loop_tags[of _ _ E seen i jobs ns] by fastforce
  then show ?thesis by (simp add: events_at_def filter_empty_conv)
qed

lemma reaches_Cons:
  "reaches (job # jobs) (Suc m) \<longleftrightarrow> (\<exists>k. hashable (url job) = Inr k) \<and> reaches jobs m"
  unfolding reaches_def
  by (auto simp: less_Suc_eq_0_disj)

lemma reaches_all:
  "\<forall>j \<in> set jobs. \<exists>k. hashable (url j) = Inr k \<Longrightarrow> m \<le> length jobs \<Longrightarrow> reaches jobs m"
  unfolding reaches_def by auto

lemma events_at_main_loop:
  "m < length jobs \<Longrightarrow>
   events_at (i + m) (snd (main_loop E seen i jobs ns)) =
     (if reaches jobs m then snd (loop_body E seen (i + m) (jobs ! m) ns) else [])"
proof (induction jobs arbitrary: i m ns)
  case Nil
  then show ?case by simp
next
  case (Cons job jobs)
  obtain r evs where b: "loop_body E seen i job ns = (r, evs)"
    by (cases "loop_body E seen i job ns") auto
  show ?case
  proof (cases m)
    case 0
    show ?thesis
    proof (cases r)
      case (Inl err)
      with b 0 show ?thesis by (simp add: events_at_tagged reaches_def)
    next
      case (Inr ns')
      obtain r' tr where ml: "main_loop E seen (Suc i) jobs ns' = (r', tr)"
        by (cases "main_loop E seen (Suc i) jobs ns'") auto
      have "events_at i tr = []"
        using events_at_outside[of i "Suc i" E seen jobs ns'] ml by simp
      with b 0 Inr ml show ?thesis by (simp add: events_at_tagged reaches_def)
    qed
  next
    case (Suc m')
    with Cons.prems have m': "m' < length jobs" by simp
    show ?thesis
    proof (cases r)
      case (Inl err)
      with b have "hashable (url job) = Inl err"
        using loop_body_fst[of E seen i job ns] by (auto split: sum.splits)
      then have "\<not> reaches (job # jobs) (Suc m')" by (simp add: reaches_Cons)
      with b Inl Suc show ?thesis by (simp add: events_at_tagged)
    next
      case (Inr ns')
      obtain r' tr where ml: "main_loop E seen (Suc i) jobs ns' = (r', tr)"
        by (cases "main_loop E seen (Suc i) jobs ns'") auto
      from b Inr have h: "\<exists>k. hashable (url job) = Inr k"
        using loop_body_fst[of E seen i job ns] by (auto split: sum.splits)
      have "events_at (i + m) (snd (main_loop E seen i (job # jobs) ns)) = events_at (Suc i + m') tr"
        using b Inr ml Suc by (simp add: events_at_tagged)
      also have "\<dots> = (if reaches jobs m' then snd (loop_body E seen (Suc i + m') (jobs ! m') ns') else [])"
        using Cons.IH[OF m', of "Suc i" ns'] ml by simp
      also have "\<dots> = (if reaches (job # jobs) m then snd (loop_body E seen (i + m) ((job # jobs) ! m) ns) else [])"
        using h Suc loop_body_events_indep[of E seen "Suc (i + m')" "jobs ! m'" ns' ns]
        by (simp add: reaches_Cons)
      finally show ?thesis .
    qed
  qed
qed

lemma main_loop_Cons_Inl:
  "hashable (url job) = Inl e \<Longrightarrow> fst (main_loop E seen i (job # jobs) ns) = Inl e"
  by (simp add: loop_body_Inl)

lemma main_loop_Cons_Inr:
  assumes "hashable (url job) = Inr k"
  shows "fst (main_loop E seen i (job # jobs) ns) =
     fst (main_loop E seen (Suc i) jobs
        (if k \<notin> set seen \<and> 7 \<le> fst (score_job E i job) then List.insert k ns else ns))"
proof -
  obtain r evs where b: "loop_body E seen i job ns = (r, evs)"
    by (cases "loop_body E seen i job ns") auto
  then have "r = Inr (if k \<notin> set seen \<and> 7 \<le> fst (score_job E i job) then List.insert k ns else ns)"
    using loop_body_fst[of E seen i job ns] assms by simp
  with b show ?thesis by (simp split: prod.splits)
qed

lemma added_Nil [simp]: "added E seen i [] = {}"
  by (simp add: added_def)

lemma added_Cons:
  "added E seen i (job # jobs) =
     {k. hashable (url job) = Inr k \<and> k \<notin> set seen \<and> 7 \<le> fst (score_job E i job)}
     \<union> added E seen (Suc i) jobs"
  unfolding added_def
  by (auto simp: less_Suc_eq_0_disj)

lemma main_loop_result:
  "fst (main_loop E seen i jobs ns) = Inr ns' \<Longrightarrow> set ns' = set ns \<union> added E seen i jobs"
proof (induction jobs arbitrary: i ns)
  case Nil
  then show ?case by simp
next
  case (Cons job jobs)
  show ?case
  proof (cases "hashable (url job)")
    case (Inl e)
    from main_loop_Cons_Inl[OF Inl, of E seen i jobs ns] Cons.prems
    show ?thesis by (simp del: main_loop.simps)
  next
    case (Inr k)
    let ?ns1 = "if k \<notin> set seen \<and> 7 \<le> fst (score_job E i job) then List.insert k ns else ns"
    from Cons.prems have "fst (main_loop E seen (Suc i) jobs ?ns1) = Inr ns'"
      unfolding main_loop_Cons_Inr[OF Inr] .
    from Cons.IH[OF this] have "set ns' = set ?ns1 \<union> added E seen (Suc i) jobs" .
    then show ?thesis using Inr by (auto simp: added_Cons)
  qed
qed

lemma main_loop_completes:
  "reaches jobs (length jobs) \<Longrightarrow> \<exists>ns'. fst (main_loop E seen i jobs ns) = Inr ns'"
proof (induction jobs arbitrary: i ns)
  case Nil
  then show ?case by simp
next
  case (Cons job jobs)
  from Cons.prems have "reaches (job # jobs) (Suc (length jobs))" by simp
  then obtain k where k: "hashable (url job) = Inr k" and r: "reaches jobs (length jobs)"
    unfolding reaches_Cons by blast
  show ?case unfolding main_loop_Cons_Inr[OF k] using Cons.IH[OF r] by blast
qed

section \<open>Properties of a pass\<close>

lemma main_not_loaded:
  "load_seen_jobs f = Inl e \<Longrightarrow>
   main E f = \<lparr>raised = Some e, cache = f, fetch_log = [], trace = []\<rparr>"
  by (simp add: main_def)

lemma main_loaded:
  assumes "load_seen_jobs f = Inr seen"
  shows "trace (main E f) = snd (main_loop E seen 0 (gathered E) seen)"
    and "cache (main E f) =
      (case fst (main_loop E seen 0 (gathered E) seen) of
         Inl e \<Rightarrow> f | Inr ns \<Rightarrow> save_seen_jobs ns)"
    and "raised (main E f) =
      (case fst (main_loop E seen 0 (gathered E) seen) of
         Inl e \<Rightarrow> Some e | Inr ns \<Rightarrow> None)"
  using assms
  by (auto simp: main_def gathered_def split: prod.splits sum.splits)

lemma events_at_main:
  assumes "load_seen_jobs f = Inr seen" "i < length (gathered E)"
  shows "events_at i (trace (main E f)) =
     (if reaches (gathered E) i then snd (loop_body E seen i (gathered E ! i) seen) else [])"
  using events_at_main_loop[OF assms(2), of 0 E seen seen] main_loaded(1)[OF assms(1), of E]
  by simp

lemma persisted_after_pass:
  assumes "load_seen_jobs f = Inr seen" "reaches (gathered E) (length (gathered E))"
  shows "raised (main E f) = None
         \<and> (\<exists>seen'. load_seen_jobs (cache (main E f)) = Inr seen'
                \<and> set seen' = set seen \<union> added E seen 0 (gathered E))"
proof -
  from main_loop_completes[OF assms(2), of E seen 0 seen]
  obtain ns where ns: "fst (main_loop E seen 0 (gathered E) seen) = Inr ns" by blast
  then have "raised (main E f) = None"
    using main_loaded(3)[OF assms(1), of E] by simp
  moreover from ns have "cache (main E f) = save_seen_jobs ns"
    using main_loaded(2)[OF assms(1), of E] by simp
  then have "load_seen_jobs (cache (main E f)) = Inr (remdups ns)"
    by (simp add: load_save)
  moreover have "set (remdups ns) = set seen \<union> added E seen 0 (gathered E)"
    using main_loop_result[OF ns] by simp
  ultimately show ?thesis by blast
qed

lemma in_trace_events_at: "(n, e) \<in> set tr \<Longrightarrow> e \<in> set (events_at n tr)"
  by (force simp: events_at_def)

lemma notifications_empty_iff: "notifications evs = [] \<longleftrightarrow> (\<forall>e \<in> set evs. \<not> is_notify e)"
  by (simp add: notifications_def filter_empty_conv)

lemma gathered_scenario: "gathered scenario = [sample_job]"
  by code_simp

lemma gathered_low_scenario: "gathered low_scenario = [sample_job]"
  by code_simp

lemma gathered_both_high:
  "gathered both_high =
     [\<lparr>title = JStr ''Senior Data Scientist'', description = JStr ''Remote'', url = JStr []\<rparr>,
      \<lparr>title = JStr ''Data Intern'', description = JStr ''On site'', url = JStr []\<rparr>]"
  by code_simp

lemma hashable_sample_job:
  "hashable (url sample_job) = Inr (PStr ''https://remoteok.com/remote-jobs/1'')"
  by (simp add: sample_job_def)

lemma score_scenario: "score_job scenario 0 sample_job = (8, ''Score: 8/10'', [])"
  by code_simp

lemma score_low_scenario: "score_job low_scenario 0 sample_job = (3, ''Score: 3/10'', [])"
  by code_simp

text \<open>
  C6: when the url of the listing at position \<open>i\<close> is in the set loaded at the start,
  no call of \<open>score_job\<close> and no call of \<open>send_to_slack\<close> belongs to that position; if the
  loop gets there, the only thing it does is log the listing as a duplicate.
\<close>

theorem seen_listing_skipped:
  assumes "load_seen_jobs f = Inr seen"
    and "i < length (gathered E)"
    and "hashable (url (gathered E ! i)) = Inr k"
    and "k \<in> set seen"
  shows "(\<forall>e \<in> set (events_at i (trace (main E f))). \<not> is_score e \<and> \<not> is_notify e)
         \<and> (reaches (gathered E) i \<longrightarrow>
              events_at i (trace (main E f))
                = [Log (Skipped_duplicate (py_str E (title (gathered E ! i))))])"
  using events_at_main[OF assms(1,2)] loop_body_seen[OF assms(3,4), of E i seen]
  by simp

text \<open>
  C6 at a pass whose only listing is already in the file.
\<close>

theorem seen_listing_skipped_witness:
  "load_seen_jobs (Document (JArr [JStr ''https://remoteok.com/remote-jobs/1'']))
      = Inr [PStr ''https://remoteok.com/remote-jobs/1'']
   \<and> gathered scenario ! 0 = sample_job
   \<and> hashable (url sample_job) = Inr (PStr ''https://remoteok.com/remote-jobs/1'')
   \<and> events_at 0 (trace (main scenario (Document (JArr [JStr ''https://remoteok.com/remote-jobs/1'']))))
        = [Log (Skipped_duplicate ''Senior Data Scientist'')]"
proof -
  have h2: "0 < length (gathered scenario)" by (simp add: gathered_scenario)
  have g: "gathered scenario ! 0 = sample_job" by (simp add: gathered_scenario)
  have h3: "hashable (url (gathered scenario ! 0)) = Inr (PStr ''https://remoteok.com/remote-jobs/1'')"
    unfolding g by (rule hashable_sample_job)
  have h4: "PStr ''https://remoteok.com/remote-jobs/1'' \<in> set [PStr ''https://remoteok.com/remote-jobs/1'']"
    by simp
  have r: "reaches (gathered scenario) 0" by (simp add: reaches_def)
  have t: "py_str scenario (title sample_job) = ''Senior Data Scientist''"
    by (simp add: py_str_def sample_job_def)
  from seen_listing_skipped[OF load_one h2 h3 h4] r
  show ?thesis using load_one g hashable_sample_job t by simp
qed

text \<open>
  C1: in a pass whose listings all have a url that can be a set member (a string, in
  particular), a listing whose url is not in the loaded set and whose score is 7 or more
  is notified exactly once, with its own message; the pass ends normally and the url is
  in the set that the file holds after it.  The listing is the one at position \<open>i\<close> of
  the gathered list: a listing that occurs twice is processed twice.
\<close>

theorem notified_once_and_persisted:
  assumes "load_seen_jobs f = Inr seen"
    and "\<forall>j \<in> set (gathered E). \<exists>k. hashable (url j) = Inr k"
    and "i < length (gathered E)"
    and "hashable (url (gathered E ! i)) = Inr k"
    and "k \<notin> set seen"
    and "score_job E i (gathered E ! i) = (sc, ex, errs)"
    and "7 \<le> sc"
  shows "notifications (events_at i (trace (main E f)))
           = [Call_send_to_slack (slack_message E (gathered E ! i) sc ex)]
         \<and> raised (main E f) = None
         \<and> (\<exists>seen'. load_seen_jobs (cache (main E f)) = Inr seen' \<and> k \<in> set seen')"
proof -
  have r: "reaches (gathered E) m" if "m \<le> length (gathered E)" for m
    using reaches_all[OF assms(2) that] .
  have "events_at i (trace (main E f)) = snd (loop_body E seen i (gathered E ! i) seen)"
    using events_at_main[OF assms(1,3)] r[of i] assms(3) by simp
  then have one: "notifications (events_at i (trace (main E f)))
           = [Call_send_to_slack (slack_message E (gathered E ! i) sc ex)]"
    using loop_body_high[OF assms(4-7), of seen] by simp
  from persisted_after_pass[OF assms(1) r[OF order_refl]]
  obtain seen' where s: "raised (main E f) = None"
    "load_seen_jobs (cache (main E f)) = Inr seen'"
    "set seen' = set seen \<union> added E seen 0 (gathered E)" by blast
  have "k \<in> added E seen 0 (gathered E)"
    unfolding added_def using assms(3-7) by auto
  with s one show ?thesis by blast
qed

text \<open>
  C1 at a pass with one listing that scores 8 and an absent file.
\<close>

theorem notified_once_and_persisted_witness:
  "load_seen_jobs Absent = Inr []
   \<and> gathered scenario ! 0 = sample_job
   \<and> hashable (url sample_job) = Inr (PStr ''https://remoteok.com/remote-jobs/1'')
   \<and> score_job scenario 0 sample_job = (8, ''Score: 8/10'', [])
   \<and> notifications (events_at 0 (trace (main scenario Absent)))
        = [Call_send_to_slack (slack_message scenario sample_job 8 ''Score: 8/10'')]
   \<and> raised (main scenario Absent) = None
   \<and> (\<exists>seen'. load_seen_jobs (cache (main scenario Absent)) = Inr seen'
          \<and> PStr ''https://remoteok.com/remote-jobs/1'' \<in> set seen')"
proof -
  have h2: "\<forall>j \<in> set (gathered scenario). \<exists>k. hashable (url j) = Inr k"
    by (simp add: gathered_scenario hashable_sample_job)
  have h3: "0 < length (gathered scenario)" by (simp add: gathered_scenario)
  have g: "gathered scenario ! 0 = sample_job" by (simp add: gathered_scenario)
  have h4: "hashable (url (gathered scenario ! 0)) = Inr (PStr ''https://remoteok.com/remote-jobs/1'')"
    unfolding g by (rule hashable_sample_job)
  have h5: "PStr ''https://remoteok.com/remote-jobs/1'' \<notin> set []" by simp
  have h6: "score_job scenario 0 (gathered scenario ! 0) = (8, ''Score: 8/10'', [])"
    unfolding g by (rule score_scenario)
  have h7: "(7::int) \<le> 8" by simp
  from notified_once_and_persisted[OF load_Absent h2 h3 h4 h5 h6 h7]
  show ?thesis using load_Absent g hashable_sample_job score_scenario by simp
qed

text \<open>
  C3, as stated, fails: two listings of one pass share the url \<open>""\<close> (the search API
  gave no link); the first scores 8, the second scores 3 and is not notified, and yet
  its url is in the set persisted at the end.
\<close>

theorem low_score_url_persisted:
  "load_seen_jobs Absent = Inr []
   \<and> hashable (url (gathered shared_url ! 1)) = Inr (PStr [])
   \<and> fst (score_job shared_url 1 (gathered shared_url ! 1)) = 3
   \<and> notifications (events_at 1 (trace (main shared_url Absent))) = []
   \<and> load_seen_jobs (cache (main shared_url Absent)) = Inr [PStr []]"
  by code_simp

text \<open>
  C3, amended: in a pass whose listings all have a url that can be a set member, a
  listing whose url is not in the loaded set and whose score is below 7 is not notified;
  the pass ends normally, and the url is in the persisted set exactly when some listing
  of the same pass with the same url scored 7 or more.
\<close>

theorem low_score_not_notified:
  assumes "load_seen_jobs f = Inr seen"
    and "\<forall>j \<in> set (gathered E). \<exists>k. hashable (url j) = Inr k"
    and "i < length (gathered E)"
    and "hashable (url (gathered E ! i)) = Inr k"
    and "k \<notin> set seen"
    and "fst (score_job E i (gathered E ! i)) < 7"
  shows "notifications (events_at i (trace (main E f))) = []
         \<and> raised (main E f) = None
         \<and> (\<exists>seen'. load_seen_jobs (cache (main E f)) = Inr seen'
              \<and> (k \<in> set seen' \<longleftrightarrow>
                   (\<exists>m < length (gathered E). hashable (url (gathered E ! m)) = Inr k
                       \<and> 7 \<le> fst (score_job E m (gathered E ! m)))))"
proof -
  have r: "reaches (gathered E) m" if "m \<le> length (gathered E)" for m
    using reaches_all[OF assms(2) that] .
  obtain sc ex errs where sj: "score_job E i (gathered E ! i) = (sc, ex, errs)"
    by (cases "score_job E i (gathered E ! i)") auto
  with assms(6) have low: "\<not> 7 \<le> sc" by simp
  have "events_at i (trace (main E f)) = snd (loop_body E seen i (gathered E ! i) seen)"
    using events_at_main[OF assms(1,3)] r[of i] assms(3) by simp
  then have none: "notifications (events_at i (trace (main E f))) = []"
    using loop_body_low[OF assms(4,5) sj low, of seen] by simp
  from persisted_after_pass[OF assms(1) r[OF order_refl]]
  obtain seen' where s: "raised (main E f) = None"
    "load_seen_jobs (cache (main E f)) = Inr seen'"
    "set seen' = set seen \<union> added E seen 0 (gathered E)" by blast
  have "k \<in> set seen' \<longleftrightarrow>
          (\<exists>m < length (gathered E). hashable (url (gathered E ! m)) = Inr k
                       \<and> 7 \<le> fst (score_job E m (gathered E ! m)))"
    unfolding s(3) added_def using assms(5) by auto
  with s(1,2) none show ?thesis by blast
qed

text \<open>
  C3, amended, at a pass with one listing that scores 3: the url stays out of the
  file.
\<close>

theorem low_score_not_notified_witness:
  "load_seen_jobs Absent = Inr []
   \<and> gathered low_scenario ! 0 = sample_job
   \<and> hashable (url sample_job) = Inr (PStr ''https://remoteok.com/remote-jobs/1'')
   \<and> fst (score_job low_scenario 0 sample_job) = 3
   \<and> notifications (events_at 0 (trace (main low_scenario Absent))) = []
   \<and> raised (main low_scenario Absent) = None
   \<and> (\<exists>seen'. load_seen_jobs (cache (main low_scenario Absent)) = Inr seen'
          \<and> PStr ''https://remoteok.com/remote-jobs/1'' \<notin> set seen')"
proof -
  have h2: "\<forall>j \<in> set (gathered low_scenario). \<exists>k. hashable (url j) = Inr k"
    by (simp add: gathered_low_scenario hashable_sample_job)
  have h3: "0 < length (gathered low_scenario)" by (simp add: gathered_low_scenario)
  have g: "gathered low_scenario ! 0 = sample_job" by (simp add: gathered_low_scenario)
  have h4: "hashable (url (gathered low_scenario ! 0)) = Inr (PStr ''https://remoteok.com/remote-jobs/1'')"
    unfolding g by (rule hashable_sample_job)
  have h5: "PStr ''https://remoteok.com/remote-jobs/1'' \<notin> set []" by simp
  have h6: "fst (score_job low_scenario 0 (gathered low_scenario ! 0)) < 7"
    unfolding g by (simp add: score_low_scenario)
  have none: "\<not> (\<exists>m < length (gathered low_scenario).
      hashable (url (gathered low_scenario ! m)) = Inr (PStr ''https://remoteok.com/remote-jobs/1'')
      \<and> 7 \<le> fst (score_job low_scenario m (gathered low_scenario ! m)))"
    by (simp add: gathered_low_scenario score_low_scenario)
  from low_score_not_notified[OF load_Absent h2 h3 h4 h5 h6] none
  show ?thesis using load_Absent g hashable_sample_job score_low_scenario by simp
qed

text \<open>
  C10: the membership test uses the set loaded at the start only.  Two listings of one
  pass that share a url outside that set are both scored, and when both score 7 or more
  each of them is notified: the Notifier is called twice for that url.
\<close>

theorem shared_url_scored_and_notified_twice:
  assumes "load_seen_jobs f = Inr seen"
    and "\<forall>j \<in> set (gathered E). \<exists>k. hashable (url j) = Inr k"
    and "i < j" and "j < length (gathered E)"
    and "hashable (url (gathered E ! i)) = Inr k"
    and "hashable (url (gathered E ! j)) = Inr k"
    and "k \<notin> set seen"
  shows "Call_score_job (gathered E ! i) \<in> set (events_at i (trace (main E f)))
       \<and> Call_score_job (gathered E ! j) \<in> set (events_at j (trace (main E f)))
       \<and> (7 \<le> fst (score_job E i (gathered E ! i)) \<and> 7 \<le> fst (score_job E j (gathered E ! j)) \<longrightarrow>
            notifications (events_at i (trace (main E f)))
              = [Call_send_to_slack (slack_message E (gathered E ! i)
                   (fst (score_job E i (gathered E ! i))) (fst (snd (score_job E i (gathered E ! i)))))]
          \<and> notifications (events_at j (trace (main E f)))
              = [Call_send_to_slack (slack_message E (gathered E ! j)
                   (fst (score_job E j (gathered E ! j))) (fst (snd (score_job E j (gathered E ! j)))))])"
proof -
  have r: "reaches (gathered E) m" if "m \<le> length (gathered E)" for m
    using reaches_all[OF assms(2) that] .
  from assms(3,4) have i: "i < length (gathered E)" by simp
  have ei: "events_at i (trace (main E f)) = snd (loop_body E seen i (gathered E ! i) seen)"
    using events_at_main[OF assms(1) i] r[of i] i by simp
  have ej: "events_at j (trace (main E f)) = snd (loop_body E seen j (gathered E ! j) seen)"
    using events_at_main[OF assms(1,4)] r[of j] assms(4) by simp
  show ?thesis
    unfolding ei ej
    using loop_body_unseen[OF assms(5,7), of E i seen] loop_body_unseen[OF assms(6,7), of E j seen]
    by simp
qed

text \<open>
  C10 at a pass with two listings of url \<open>""\<close> that both score 9.
\<close>

theorem shared_url_scored_and_notified_twice_witness:
  "load_seen_jobs Absent = Inr []
   \<and> hashable (url (gathered both_high ! 0)) = Inr (PStr [])
   \<and> hashable (url (gathered both_high ! 1)) = Inr (PStr [])
   \<and> fst (score_job both_high 0 (gathered both_high ! 0)) = 9
   \<and> fst (score_job both_high 1 (gathered both_high ! 1)) = 9
   \<and> Call_score_job (gathered both_high ! 0) \<in> set (events_at 0 (trace (main both_high Absent)))
   \<and> Call_score_job (gathered both_high ! 1) \<in> set (events_at 1 (trace (main both_high Absent)))
   \<and> notifications (events_at 0 (trace (main both_high Absent)))
       = [Call_send_to_slack (Message ''Senior Data Scientist'' [] 9 ''Score: 9/10'')]
   \<and> notifications (events_at 1 (trace (main both_high Absent)))
       = [Call_send_to_slack (Message ''Data Intern'' [] 9 ''Score: 9/10'')]"
proof -
  have h2: "\<forall>j \<in> set (gathered both_high). \<exists>k. hashable (url j) = Inr k"
    by (simp add: gathered_both_high)
  have h3: "(0::nat) < 1" by simp
  have h4: "1 < length (gathered both_high)" by (simp add: gathered_both_high)
  have h5: "hashable (url (gathered both_high ! 0)) = Inr (PStr [])"
    by (simp add: gathered_both_high)
  have h6: "hashable (url (gathered both_high ! 1)) = Inr (PStr [])"
    by (simp add: gathered_both_high)
  have h7: "PStr [] \<notin> set []" by simp
  have s0: "score_job both_high 0 (gathered both_high ! 0) = (9, ''Score: 9/10'', [])"
    by code_simp
  have s1: "score_job both_high 1 (gathered both_high ! 1) = (9, ''Score: 9/10'', [])"
    by code_simp
  have m0: "slack_message both_high (gathered both_high ! 0) 9 ''Score: 9/10''
              = Message ''Senior Data Scientist'' [] 9 ''Score: 9/10''"
    by (simp add: slack_message_def gathered_both_high py_str_def)
  have m1: "slack_message both_high (gathered both_high ! 1) 9 ''Score: 9/10''
              = Message ''Data Intern'' [] 9 ''Score: 9/10''"
    by (simp add: slack_message_def gathered_both_high py_str_def)
  from shared_url_scored_and_notified_twice[OF load_Absent h2 h3 h4 h5 h6 h7]
  show ?thesis using load_Absent h5 h6 s0 s1 m0 m1 by simp
qed

text \<open>
  C8: whenever the seen set can be loaded, the set held by the file after the pass
  contains it, whether the pass ends normally or by an exception.
\<close>

theorem seen_set_grows:
  assumes "load_seen_jobs f = Inr seen"
  shows "\<exists>seen'. load_seen_jobs (cache (main E f)) = Inr seen' \<and> set seen \<subseteq> set seen'"
proof (cases "fst (main_loop E seen 0 (gathered E) seen)")
  case (Inl e)
  then have "cache (main E f) = f" using main_loaded(2)[OF assms, of E] by simp
  with assms show ?thesis by auto
next
  case (Inr ns)
  then have "cache (main E f) = save_seen_jobs ns"
    using main_loaded(2)[OF assms, of E] by simp
  then have "load_seen_jobs (cache (main E f)) = Inr (remdups ns)"
    by (simp add: load_save)
  moreover have "set seen \<subseteq> set (remdups ns)"
    using main_loop_result[OF Inr] by simp
  ultimately show ?thesis by blast
qed

text \<open>
  C8 at a file with one old url and a pass that adds a new one.
\<close>

theorem seen_set_grows_witness:
  "load_seen_jobs (Document (JArr [JStr ''https://example.org/old''])) = Inr [PStr ''https://example.org/old'']
   \<and> (\<exists>seen'. load_seen_jobs (cache (main scenario (Document (JArr [JStr ''https://example.org/old'']))))
                  = Inr seen'
          \<and> set [PStr ''https://example.org/old''] \<subseteq> set seen')"
  using seen_set_grows[OF load_one, where E = scenario] load_one
  by simp

text \<open>
  C4: in a pass whose listings all have a url that can be a set member, running the
  pass again on the file the first pass left, with the same listings and the same
  answers of the scoring service, calls the Notifier for no listing.
\<close>

theorem second_pass_silent:
  assumes "\<forall>j \<in> set (gathered E). \<exists>k. hashable (url j) = Inr k"
  shows "notifications (map snd (trace (main E (cache (main E f))))) = []"
proof (cases "load_seen_jobs f")
  case (Inl e)
  then show ?thesis by (simp add: main_not_loaded)
next
  case (Inr seen)
  have r: "reaches (gathered E) m" if "m \<le> length (gathered E)" for m
    using reaches_all[OF assms that] .
  from persisted_after_pass[OF Inr r[OF order_refl]]
  obtain seen' where s: "load_seen_jobs (cache (main E f)) = Inr seen'"
    "set seen' = set seen \<union> added E seen 0 (gathered E)" by blast
  let ?tr = "trace (main E (cache (main E f)))"
  have tr: "?tr = snd (main_loop E seen' 0 (gathered E) seen')"
    using main_loaded(1)[OF s(1)] .
  have "\<not> is_notify e" if "(n, e) \<in> set ?tr" for n e
  proof
    assume ne: "is_notify e"
    from that have n: "n < length (gathered E)"
      using main_loop_tags[of n e E seen' 0 "gathered E" seen'] tr by simp
    from that have "e \<in> set (events_at n ?tr)" by (rule in_trace_events_at)
    then have "e \<in> set (snd (loop_body E seen' n (gathered E ! n) seen'))"
      using events_at_main[OF s(1) n] r[of n] n by simp
    from loop_body_notify[OF this ne] obtain k where
      k: "hashable (url (gathered E ! n)) = Inr k" "k \<notin> set seen'"
         "7 \<le> fst (score_job E n (gathered E ! n))" by blast
    from k(2) s(2) have "k \<notin> set seen" by simp
    with k(1,3) n have "k \<in> added E seen 0 (gathered E)"
      unfolding added_def by auto
    with k(2) s(2) show False by simp
  qed
  then show ?thesis
    unfolding notifications_empty_iff by auto
qed

text \<open>
  C4 at a pass that notifies one listing the first time and none the second time.
\<close>

theorem second_pass_silent_witness:
  "gathered scenario = [sample_job]
   \<and> hashable (url sample_job) = Inr (PStr ''https://remoteok.com/remote-jobs/1'')
   \<and> notifications (map snd (trace (main scenario Absent)))
        = [Call_send_to_slack (slack_message scenario sample_job 8 ''Score: 8/10'')]
   \<and> notifications (map snd (trace (main scenario (cache (main scenario Absent))))) = []"
proof -
  have h: "\<forall>j \<in> set (gathered scenario). \<exists>k. hashable (url j) = Inr k"
    by (simp add: gathered_scenario hashable_sample_job)
  have first: "notifications (map snd (trace (main scenario Absent)))
        = [Call_send_to_slack (slack_message scenario sample_job 8 ''Score: 8/10'')]"
    by code_simp
  from second_pass_silent[OF h, of Absent] first
  show ?thesis using gathered_scenario hashable_sample_job by simp
qed

end
